theory Spec2Isabelle
  imports Complex_Main
begin

section \<open>The Fokker-Planck pusher of pusherFP.ipynb\<close>

text \<open>
  The notebook integrates \<open>d\<gamma> = - S dt + sqrt R dW\<close> for an ensemble of electrons with
  an Euler-Maruyama step per particle and per time step. Its cells are embedded one by one:
  the sampling of the initial ensemble (cell 2), the tabulation of the coefficients and the
  two interpolants (cell 3) and the integration loop with its three dumps (cell 4).

  Numbers. A NumPy float is modelled as a real number or as NaN: rounding and overflow are
  not modelled, NaN is, because it is what \<open>numpy.sqrt\<close> returns on a negative argument and
  because a NaN stored in the ensemble passes every later comparison of the loop.
\<close>

subsection \<open>Floats, exceptions\<close>

datatype flt = Fin real | NaN

text \<open>
  The exceptions the embedded cells can raise. The three \<open>ValueError\<close>s of the run are kept
  apart by their origin: the two messages of \<open>interp1d\<close> (a query below, or above, the
  interpolation range) and the domain error of \<open>math.sqrt\<close>; \<open>np.max\<close> of an empty array
  raises the fourth, and \<open>tmax/tdim\<close> with \<open>tdim = 0\<close> the \<open>ZeroDivisionError\<close>.
\<close>

datatype error =
    ValueError_below_range
  | ValueError_above_range
  | ValueError_math_domain
  | ValueError_zero_size
  | ZeroDivisionError

fun fadd :: "flt \<Rightarrow> flt \<Rightarrow> flt" where
  "fadd (Fin a) (Fin b) = Fin (a + b)"
| "fadd _ _ = NaN"

fun fmul :: "flt \<Rightarrow> flt \<Rightarrow> flt" where
  "fmul (Fin a) (Fin b) = Fin (a * b)"
| "fmul _ _ = NaN"

fun fneg :: "flt \<Rightarrow> flt" where
  "fneg (Fin a) = Fin (- a)"
| "fneg NaN = NaN"

text \<open>A comparison with NaN is false.\<close>

fun fless :: "flt \<Rightarrow> flt \<Rightarrow> bool" where
  "fless (Fin a) (Fin b) = (a < b)"
| "fless _ _ = False"

text \<open>
  \<open>sqrt\<close> reaches the notebook through \<open>from pushers import *\<close>, and the module \<open>pushers\<close> is
  not part of the sources. The two square roots such a module exports differ on a negative
  argument only: \<open>math.sqrt\<close> raises \<open>ValueError\<close>, \<open>numpy.sqrt\<close> returns NaN (with a
  warning). The choice is a parameter of the model.
\<close>

datatype sqrt_impl = MathSqrt | NumpySqrt

fun py_sqrt :: "sqrt_impl \<Rightarrow> flt \<Rightarrow> error + flt" where
  "py_sqrt sq NaN = Inr NaN"
| "py_sqrt sq (Fin x) =
     (if 0 \<le> x then Inr (Fin (sqrt x))
      else (case sq of MathSqrt \<Rightarrow> Inl ValueError_math_domain | NumpySqrt \<Rightarrow> Inr NaN))"

subsection \<open>Cell 2: sampling and simulation parameters\<close>

text \<open>
  \<open>gmdist = 1800 + 90*rng.standard_normal(Nsmpl); gmdist[gmdist<1] = 1\<close>.
  The argument is the list of the \<open>Nsmpl\<close> normal draws.
\<close>

definition sampling :: "real list \<Rightarrow> real list" where
  "sampling zs = map (\<lambda>z. let g = 1800 + 90 * z in if g < 1 then 1 else g) zs"

text \<open>\<open>dt = tmax/tdim\<close>, Python's true division.\<close>

definition dt_of :: "real \<Rightarrow> int \<Rightarrow> error + real" where
  "dt_of tmax tdim = (if tdim = 0 then Inl ZeroDivisionError else Inr (tmax / real_of_int tdim))"

subsection \<open>Cell 3: the coefficient tables and their interpolants\<close>

text \<open>
  \<open>np.linspace(start, stop, num)\<close> with the default \<open>endpoint=True\<close>: the points
  \<open>start + i * step\<close> with \<open>step = (stop - start) / (num - 1)\<close>, the last one set to \<open>stop\<close>.
\<close>

definition linspace :: "real \<Rightarrow> real \<Rightarrow> nat \<Rightarrow> real list" where
  "linspace start stop num =
     (if num = 0 then []
      else if num = 1 then [start]
      else (let step = (stop - start) / real (num - 1)
            in map (\<lambda>i. start + real i * step) [0..<num - 1] @ [stop]))"

text \<open>\<open>np.max\<close> raises on an empty array.\<close>

definition np_max :: "real list \<Rightarrow> error + real" where
  "np_max xs = (case xs of [] \<Rightarrow> Inl ValueError_zero_size | x # r \<Rightarrow> Inr (fold max r x))"

text \<open>
  \<open>scipy.interpolate.interp1d(x, y)\<close> with its defaults: \<open>kind='linear'\<close>,
  \<open>assume_sorted=False\<close> (the nodes are sorted by \<open>x\<close>, stably, and \<open>y\<close> follows) and
  \<open>bounds_error\<close> on, since no \<open>fill_value\<close> is given.
\<close>

record interp1d =
  ix :: "real list"
  iy :: "real list"

definition interp1d :: "real list \<Rightarrow> real list \<Rightarrow> interp1d" where
  "interp1d x y = (let ps = sort_key fst (zip x y) in \<lparr>ix = map fst ps, iy = map snd ps\<rparr>)"

text \<open>\<open>np.searchsorted(a, v)\<close>, side left: the first index \<open>i\<close> with \<open>v \<le> a[i]\<close>.\<close>

definition searchsorted :: "real list \<Rightarrow> real \<Rightarrow> nat" where
  "searchsorted a v = length (takeWhile (\<lambda>u. u < v) a)"

text \<open>
  The linear evaluation: the index found is clipped to \<open>[1, len(x) - 1]\<close>, and the value is
  read off the segment between \<open>x[i - 1]\<close> and \<open>x[i]\<close>.
\<close>

definition call_linear :: "interp1d \<Rightarrow> real \<Rightarrow> real" where
  "call_linear f x_new =
     (let hi = min (length (ix f) - 1) (max 1 (searchsorted (ix f) x_new));
          lo = hi - 1;
          x_lo = ix f ! lo; x_hi = ix f ! hi;
          y_lo = iy f ! lo; y_hi = iy f ! hi;
          slope = (y_hi - y_lo) / (x_hi - x_lo)
      in slope * (x_new - x_lo) + y_lo)"

text \<open>
  Calling the interpolant on a number: the bounds are checked against the first and the last
  node, below first, and a query outside raises.
\<close>

definition interp_call :: "interp1d \<Rightarrow> real \<Rightarrow> error + real" where
  "interp_call f x_new =
     (if x_new < hd (ix f) then Inl ValueError_below_range
      else if last (ix f) < x_new then Inl ValueError_above_range
      else Inr (call_linear f x_new))"

text \<open>
  The coefficient functions \<open>S39\<close> and \<open>R40\<close> come from \<open>pushers\<close> too and are parameters, as
  is \<open>Kalpha\<close>, which the notebook computes from physical constants of that module.
\<close>

definition gmlst_of :: "real list \<Rightarrow> error + real list" where
  "gmlst_of gmdist =
     (case np_max gmdist of Inl e \<Rightarrow> Inl e | Inr m \<Rightarrow> Inr (linspace 1 (2 * m) 200))"

definition S_lst_of :: "(real \<Rightarrow> real \<Rightarrow> real) \<Rightarrow> real \<Rightarrow> real \<Rightarrow> real list \<Rightarrow> real list" where
  "S_lst_of S39 chi0 Kalpha gmlst = map (\<lambda>gm. S39 (gm / 1800 * chi0) Kalpha) gmlst"

definition R_lst_of ::
  "(real \<Rightarrow> real \<Rightarrow> real \<Rightarrow> real) \<Rightarrow> real \<Rightarrow> real \<Rightarrow> real list \<Rightarrow> real list" where
  "R_lst_of R40 chi0 Kalpha gmlst = map (\<lambda>gm. R40 (gm / 1800 * chi0) gm Kalpha) gmlst"

definition interpolation ::
  "(real \<Rightarrow> real \<Rightarrow> real) \<Rightarrow> (real \<Rightarrow> real \<Rightarrow> real \<Rightarrow> real) \<Rightarrow> real \<Rightarrow> real \<Rightarrow> real list
     \<Rightarrow> error + (interp1d \<times> interp1d)" where
  "interpolation S39 R40 chi0 Kalpha gmdist =
     (case gmlst_of gmdist of
        Inl e \<Rightarrow> Inl e
      | Inr gmlst \<Rightarrow>
          Inr (interp1d gmlst (S_lst_of S39 chi0 Kalpha gmlst),
               interp1d gmlst (R_lst_of R40 chi0 Kalpha gmlst)))"

subsection \<open>Cell 4: the integration loop\<close>

text \<open>
  An interpolant as the loop sees it: a callable on the stored float. A NaN query passes
  both bounds checks of \<open>interp1d\<close> (the comparisons are false) and evaluates to NaN.
\<close>

definition query :: "(real \<Rightarrow> error + real) \<Rightarrow> flt \<Rightarrow> error + flt" where
  "query intrp g =
     (case g of
        NaN \<Rightarrow> Inr NaN
      | Fin x \<Rightarrow> (case intrp x of Inl e \<Rightarrow> Inl e | Inr v \<Rightarrow> Inr (Fin v)))"

text \<open>
  The body of the particle loop for one particle, in the order of the statements: the two
  interpolations, \<open>dW = sqrt(dt) * np.random.randn()\<close> with the draw \<open>z\<close>,
  \<open>dgamma = -S * dt + sqrt(R) * dW\<close>, the update and the test \<open>gmdist[i] < 1\<close>.
\<close>

definition step ::
  "sqrt_impl \<Rightarrow> (real \<Rightarrow> error + real) \<Rightarrow> (real \<Rightarrow> error + real) \<Rightarrow> real \<Rightarrow> real \<Rightarrow> flt
     \<Rightarrow> error + flt" where
  "step sq S_intrp R_intrp dt z g =
     (case query S_intrp g of
        Inl e \<Rightarrow> Inl e
      | Inr S \<Rightarrow>
          (case query R_intrp g of
             Inl e \<Rightarrow> Inl e
           | Inr R \<Rightarrow>
               (case py_sqrt sq (Fin dt) of
                  Inl e \<Rightarrow> Inl e
                | Inr sdt \<Rightarrow>
                    (let dW = fmul sdt (Fin z) in
                     (case py_sqrt sq R of
                        Inl e \<Rightarrow> Inl e
                      | Inr sR \<Rightarrow>
                          (let dgamma = fadd (fmul (fneg S) (Fin dt)) (fmul sR dW);
                               g' = fadd g dgamma
                           in Inr (if fless g' (Fin 1) then Fin 1 else g')))))))"

text \<open>
  \<open>for i in range(Nsmpl)\<close>: the state is the array and the number \<open>k\<close> of draws taken from
  \<open>np.random\<close> so far; \<open>noise k\<close> is the value of draw number \<open>k\<close>. An exception leaves the loop.
\<close>

fun for_particles ::
  "sqrt_impl \<Rightarrow> (real \<Rightarrow> error + real) \<Rightarrow> (real \<Rightarrow> error + real) \<Rightarrow> real \<Rightarrow> (nat \<Rightarrow> real)
     \<Rightarrow> nat list \<Rightarrow> flt list \<times> nat \<Rightarrow> error + flt list \<times> nat" where
  "for_particles sq S_intrp R_intrp dt noise [] (gmdist, k) = Inr (gmdist, k)"
| "for_particles sq S_intrp R_intrp dt noise (i # is) (gmdist, k) =
     (case step sq S_intrp R_intrp dt (noise k) (gmdist ! i) of
        Inl e \<Rightarrow> Inl e
      | Inr g' \<Rightarrow> for_particles sq S_intrp R_intrp dt noise is (gmdist[i := g'], Suc k))"

text \<open>\<open>int(tdim/2)\<close>: the quotient truncated towards zero.\<close>

definition int_half :: "int \<Rightarrow> int" where
  "int_half tdim = (if 0 \<le> tdim then tdim div 2 else - ((- tdim) div 2))"

text \<open>
  \<open>for t in range(tdim)\<close>: the state is the array, the draw counter and \<open>gmdist_dump2\<close>.
  \<open>Nsmpl\<close> is the length of the array, as cell 2 created it.
\<close>

fun for_timesteps ::
  "sqrt_impl \<Rightarrow> (real \<Rightarrow> error + real) \<Rightarrow> (real \<Rightarrow> error + real) \<Rightarrow> real \<Rightarrow> (nat \<Rightarrow> real)
     \<Rightarrow> int \<Rightarrow> nat list \<Rightarrow> flt list \<times> nat \<times> flt list \<Rightarrow> error + flt list \<times> nat \<times> flt list" where
  "for_timesteps sq S_intrp R_intrp dt noise tdim [] st = Inr st"
| "for_timesteps sq S_intrp R_intrp dt noise tdim (t # ts) (gmdist, k, dump2) =
     (case for_particles sq S_intrp R_intrp dt noise [0..<length gmdist] (gmdist, k) of
        Inl e \<Rightarrow> Inl e
      | Inr (gmdist', k') \<Rightarrow>
          for_timesteps sq S_intrp R_intrp dt noise tdim ts
            (gmdist', k', if int t = int_half tdim then gmdist' else dump2))"

record dumps =
  gmdist_dump1 :: "flt list"
  gmdist_dump2 :: "flt list"
  gmdist_dump3 :: "flt list"

text \<open>
  The run: the dumps as cell 2 initialises them (\<open>np.copy(gmdist)\<close>, and twice
  \<open>np.copy(gmdist) * 0\<close>), the loop, and \<open>gmdist_dump3 = np.copy(gmdist)\<close> after it.
\<close>

definition run ::
  "sqrt_impl \<Rightarrow> (real \<Rightarrow> error + real) \<Rightarrow> (real \<Rightarrow> error + real) \<Rightarrow> int \<Rightarrow> real \<Rightarrow> (nat \<Rightarrow> real)
     \<Rightarrow> flt list \<Rightarrow> error + dumps" where
  "run sq S_intrp R_intrp tdim dt noise gmdist =
     (let dump1 = gmdist;
          dump2 = map (\<lambda>g. fmul g (Fin 0)) gmdist
      in case for_timesteps sq S_intrp R_intrp dt noise tdim [0..<nat tdim] (gmdist, 0, dump2) of
           Inl e \<Rightarrow> Inl e
         | Inr (gmdist', k, dump2') \<Rightarrow>
             Inr \<lparr>gmdist_dump1 = dump1, gmdist_dump2 = dump2', gmdist_dump3 = gmdist'\<rparr>)"

text \<open>Cells 2 to 4 in sequence.\<close>

definition notebook ::
  "sqrt_impl \<Rightarrow> (real \<Rightarrow> real \<Rightarrow> real) \<Rightarrow> (real \<Rightarrow> real \<Rightarrow> real \<Rightarrow> real) \<Rightarrow> real \<Rightarrow> real
     \<Rightarrow> real \<Rightarrow> int \<Rightarrow> real list \<Rightarrow> (nat \<Rightarrow> real) \<Rightarrow> error + dumps" where
  "notebook sq S39 R40 chi0 Kalpha tmax tdim zs noise =
     (let gmdist = sampling zs in
      (case dt_of tmax tdim of
         Inl e \<Rightarrow> Inl e
       | Inr dt \<Rightarrow>
           (case interpolation S39 R40 chi0 Kalpha gmdist of
              Inl e \<Rightarrow> Inl e
            | Inr (S_intrp, R_intrp) \<Rightarrow>
                run sq (interp_call S_intrp) (interp_call R_intrp) tdim dt noise
                  (map Fin gmdist))))"

subsection \<open>Notions used to state the properties\<close>

text \<open>
  The array after \<open>n\<close> completed passes of the particle loop, with the draw counter: the
  particle loop of cell 4 iterated, nothing else.
\<close>

fun steps ::
  "sqrt_impl \<Rightarrow> (real \<Rightarrow> error + real) \<Rightarrow> (real \<Rightarrow> error + real) \<Rightarrow> real \<Rightarrow> (nat \<Rightarrow> real)
     \<Rightarrow> nat \<Rightarrow> flt list \<times> nat \<Rightarrow> error + flt list \<times> nat" where
  "steps sq S_intrp R_intrp dt noise 0 st = Inr st"
| "steps sq S_intrp R_intrp dt noise (Suc n) (gmdist, k) =
     (case for_particles sq S_intrp R_intrp dt noise [0..<length gmdist] (gmdist, k) of
        Inl e \<Rightarrow> Inl e
      | Inr st' \<Rightarrow> steps sq S_intrp R_intrp dt noise n st')"

definition ensemble_after ::
  "sqrt_impl \<Rightarrow> (real \<Rightarrow> error + real) \<Rightarrow> (real \<Rightarrow> error + real) \<Rightarrow> real \<Rightarrow> (nat \<Rightarrow> real)
     \<Rightarrow> nat \<Rightarrow> flt list \<Rightarrow> error + flt list" where
  "ensemble_after sq S_intrp R_intrp dt noise n gmdist =
     (case steps sq S_intrp R_intrp dt noise n (gmdist, 0) of
        Inl e \<Rightarrow> Inl e
      | Inr (gmdist', k) \<Rightarrow> Inr gmdist')"

text \<open>The comparison \<open>g >= 1\<close> on a stored float; it is false of NaN.\<close>

fun ge1 :: "flt \<Rightarrow> bool" where
  "ge1 (Fin v) = (1 \<le> v)"
| "ge1 NaN = False"

text \<open>
  The particle loop with the particles visited in a given order \<open>is\<close>, each particle \<open>i\<close>
  keeping its own draw \<open>z i\<close>. The loop of cell 4 is the order \<open>[0..<Nsmpl]\<close>.
\<close>

fun for_particles_order ::
  "sqrt_impl \<Rightarrow> (real \<Rightarrow> error + real) \<Rightarrow> (real \<Rightarrow> error + real) \<Rightarrow> real \<Rightarrow> (nat \<Rightarrow> real)
     \<Rightarrow> nat list \<Rightarrow> flt list \<Rightarrow> error + flt list" where
  "for_particles_order sq S_intrp R_intrp dt z [] gmdist = Inr gmdist"
| "for_particles_order sq S_intrp R_intrp dt z (i # is) gmdist =
     (case step sq S_intrp R_intrp dt (z i) (gmdist ! i) of
        Inl e \<Rightarrow> Inl e
      | Inr g' \<Rightarrow> for_particles_order sq S_intrp R_intrp dt z is (gmdist[i := g']))"

text \<open>
  The step as section 4.3 of the specification words it, on real numbers: the diffusion
  rate is clamped to 0 before its square root is taken.
\<close>

definition step_spec ::
  "(real \<Rightarrow> error + real) \<Rightarrow> (real \<Rightarrow> error + real) \<Rightarrow> real \<Rightarrow> real \<Rightarrow> real \<Rightarrow> error + real" where
  "step_spec drift_interp diffusion_interp dt z gamma =
     (case drift_interp gamma of
        Inl e \<Rightarrow> Inl e
      | Inr S \<Rightarrow>
          (case diffusion_interp gamma of
             Inl e \<Rightarrow> Inl e
           | Inr R \<Rightarrow>
               (let R0 = (if R < 0 then 0 else R);
                    dW = sqrt dt * z;
                    gamma' = gamma + (- S * dt + sqrt R0 * dW)
                in Inr (if gamma' < 1 then 1 else gamma'))))"

text \<open>The noise source that returns 0 for every draw.\<close>

definition zero_noise :: "nat \<Rightarrow> real" where
  "zero_noise n = 0"

section \<open>The particle loop\<close>

lemma step_Fin:
  assumes "S_intrp g = Inr S" "R_intrp g = Inr R" "0 \<le> R" "0 \<le> dt"
  shows "step sq S_intrp R_intrp dt z (Fin g) =
           Inr (Fin (let g' = g + (- S * dt + sqrt R * (sqrt dt * z)) in if g' < 1 then 1 else g'))"
  using assms by (simp add: step_def query_def Let_def)

text \<open>
  What a pass over distinct indices does: every visited particle holds the result of its own
  step, computed from its own old value, and the others are untouched.
\<close>

lemma for_particles_order_Inr_iff:
  assumes "distinct is" "\<forall>i\<in>set is. i < length gm"
  shows "for_particles_order sq S R dt z is gm = Inr gm' \<longleftrightarrow>
     length gm' = length gm \<and>
     (\<forall>i<length gm. if i \<in> set is then step sq S R dt (z i) (gm ! i) = Inr (gm' ! i)
                     else gm' ! i = gm ! i)"
  using assms
proof (induction "is" arbitrary: gm)
  case Nil
  then show ?case by (auto intro: nth_equalityI)
next
  case (Cons i "is")
  show ?case
  proof (cases "step sq S R dt (z i) (gm ! i)")
    case (Inl e)
    then show ?thesis using Cons.prems by auto
  next
    case (Inr g')
    have ih: "for_particles_order sq S R dt z is (gm[i := g']) = Inr gm' \<longleftrightarrow>
       length gm' = length gm \<and>
       (\<forall>j<length gm. if j \<in> set is then step sq S R dt (z j) (gm[i := g'] ! j) = Inr (gm' ! j)
                     else gm' ! j = gm[i := g'] ! j)"
      using Cons.IH[of "gm[i := g']"] Cons.prems by simp
    from Cons.prems have ni: "i \<notin> set is" and il: "i < length gm" by auto
    show ?thesis
      unfolding for_particles_order.simps Inr sum.case ih
      using ni il Inr by (auto simp: nth_list_update)
  qed
qed

text \<open>The loop of cell 4 hands draw number \<open>k + i\<close> to particle \<open>i\<close>.\<close>

lemma for_particles_upt:
  "for_particles sq S R dt noise [m..<n] (gm, k) =
     (case for_particles_order sq S R dt (\<lambda>i. noise (k + i - m)) [m..<n] gm of
        Inl e \<Rightarrow> Inl e | Inr gm' \<Rightarrow> Inr (gm', k + (n - m)))"
proof (induction "n - m" arbitrary: m gm k)
  case 0
  then show ?case by simp
next
  case (Suc d)
  then have mn: "m < n" by simp
  have ih: "\<And>gm. for_particles sq S R dt noise [Suc m..<n] (gm, Suc k) =
     (case for_particles_order sq S R dt (\<lambda>i. noise (Suc k + i - Suc m)) [Suc m..<n] gm of
        Inl e \<Rightarrow> Inl e | Inr gm' \<Rightarrow> Inr (gm', Suc k + (n - Suc m)))"
    using Suc.hyps(1)[of "Suc m" _ "Suc k"] Suc.hyps(2) by simp
  show ?case
    using mn by (auto simp: upt_conv_Cons ih split: sum.splits)
qed

lemma for_particles_range:
  "for_particles sq S R dt noise [0..<n] (gm, k) =
     (case for_particles_order sq S R dt (\<lambda>i. noise (k + i)) [0..<n] gm of
        Inl e \<Rightarrow> Inl e | Inr gm' \<Rightarrow> Inr (gm', k + n))"
  using for_particles_upt[of sq S R dt noise 0 n gm k] by (simp split: sum.splits)

lemma timestep_Inr_iff:
  "for_particles sq S R dt noise [0..<length gm] (gm, k) = Inr (gm', k') \<longleftrightarrow>
     k' = k + length gm \<and> length gm' = length gm \<and>
     (\<forall>i<length gm. step sq S R dt (noise (k + i)) (gm ! i) = Inr (gm' ! i))"
proof -
  have "for_particles_order sq S R dt (\<lambda>i. noise (k + i)) [0..<length gm] gm = Inr gm' \<longleftrightarrow>
     length gm' = length gm \<and>
     (\<forall>i<length gm. step sq S R dt (noise (k + i)) (gm ! i) = Inr (gm' ! i))"
    by (subst for_particles_order_Inr_iff) auto
  then show ?thesis
    by (auto simp: for_particles_range split: sum.splits)
qed

section \<open>The Euler-Maruyama update\<close>

text \<open>
  Claim C1. In one pass of the particle loop, particle \<open>i\<close> with the value \<open>g\<close> gets
  \<open>S = S_intrp(g)\<close>, \<open>R = R_intrp(g)\<close>, \<open>dW = sqrt(dt) * z\<close> for its one draw \<open>z\<close> (draw number
  \<open>k + i\<close> of the stream) and is set to \<open>g + (- S * dt + sqrt(R) * dW)\<close>, which is then
  clamped from below at 1. With three particles at 1800, two time steps, \<open>dt = 0.005\<close>, the
  constant drift table 10, the constant diffusion table 0 and all draws 0, the final dump is
  \<open>[1799.9, 1799.9, 1799.9]\<close>.
\<close>

theorem euler_maruyama_step_and_scenario:
  "(for_particles sq S_intrp R_intrp dt noise [0..<length gmdist] (gmdist, k) = Inr (gmdist', k')
      \<and> i < length gmdist \<and> gmdist ! i = Fin g
      \<and> S_intrp g = Inr S \<and> R_intrp g = Inr R \<and> 0 \<le> R \<and> 0 \<le> dt
    \<longrightarrow> gmdist' ! i =
          Fin (let dW = sqrt dt * noise (k + i); g' = g + (- S * dt + sqrt R * dW)
               in if g' < 1 then 1 else g'))
   \<and> run sq0 (interp_call \<lparr>ix = [1, 3600], iy = [10, 10]\<rparr>)
          (interp_call \<lparr>ix = [1, 3600], iy = [0, 0]\<rparr>) 2 0.005 (\<lambda>n. 0)
          [Fin 1800, Fin 1800, Fin 1800]
       = Inr \<lparr>gmdist_dump1 = [Fin 1800, Fin 1800, Fin 1800],
              gmdist_dump2 = [Fin 1799.9, Fin 1799.9, Fin 1799.9],
              gmdist_dump3 = [Fin 1799.9, Fin 1799.9, Fin 1799.9]\<rparr>"
proof (intro conjI impI)
  assume a: "for_particles sq S_intrp R_intrp dt noise [0..<length gmdist] (gmdist, k)
        = Inr (gmdist', k')
      \<and> i < length gmdist \<and> gmdist ! i = Fin g
      \<and> S_intrp g = Inr S \<and> R_intrp g = Inr R \<and> 0 \<le> R \<and> 0 \<le> dt"
  then have "step sq S_intrp R_intrp dt (noise (k + i)) (gmdist ! i) = Inr (gmdist' ! i)"
    by (auto simp: timestep_Inr_iff)
  with a show "gmdist' ! i =
          Fin (let dW = sqrt dt * noise (k + i); g' = g + (- S * dt + sqrt R * dW)
               in if g' < 1 then 1 else g')"
    by (simp add: step_Fin Let_def)
next
  show "run sq0 (interp_call \<lparr>ix = [1, 3600], iy = [10, 10]\<rparr>)
          (interp_call \<lparr>ix = [1, 3600], iy = [0, 0]\<rparr>) 2 0.005 (\<lambda>n. 0)
          [Fin 1800, Fin 1800, Fin 1800]
       = Inr \<lparr>gmdist_dump1 = [Fin 1800, Fin 1800, Fin 1800],
              gmdist_dump2 = [Fin 1799.9, Fin 1799.9, Fin 1799.9],
              gmdist_dump3 = [Fin 1799.9, Fin 1799.9, Fin 1799.9]\<rparr>"
    by (simp add: run_def step_def query_def Let_def int_half_def upt_rec eval_nat_numeral
        interp_call_def call_linear_def searchsorted_def)
qed

theorem euler_maruyama_step_and_scenario_witness:
  "for_particles NumpySqrt (interp_call \<lparr>ix = [1, 3600], iy = [10, 10]\<rparr>)
      (interp_call \<lparr>ix = [1, 3600], iy = [4, 4]\<rparr>) 0.25 (\<lambda>n. 3) [0..<length [Fin 1800]]
      ([Fin 1800], 0) = Inr ([Fin 1800.5], 1)
   \<and> [Fin 1800.5] ! 0 = Fin (1800 + (- 10 * 0.25 + sqrt 4 * (sqrt 0.25 * 3)))"
proof -
  have s4: "sqrt 4 = 2" and s25: "sqrt (1 / 4) = 1 / 2"
    using real_sqrt_abs[of 2] real_sqrt_abs[of "1 / 2"] by (simp_all add: power2_eq_square)
  have run1: "for_particles NumpySqrt (interp_call \<lparr>ix = [1, 3600], iy = [10, 10]\<rparr>)
      (interp_call \<lparr>ix = [1, 3600], iy = [4, 4]\<rparr>) 0.25 (\<lambda>n. 3) [0..<length [Fin 1800]]
      ([Fin 1800], 0) = Inr ([Fin 1800.5], 1)"
    by (simp add: step_def query_def Let_def interp_call_def call_linear_def searchsorted_def
        s4 s25)
  show ?thesis
    using run1
      euler_maruyama_step_and_scenario[of NumpySqrt
        "interp_call \<lparr>ix = [1, 3600], iy = [10, 10]\<rparr>"
        "interp_call \<lparr>ix = [1, 3600], iy = [4, 4]\<rparr>" "0.25" "\<lambda>n. 3" "[Fin 1800]" 0
        "[Fin 1800.5]" 1 0 1800 10 4 MathSqrt]
    by (simp add: interp_call_def call_linear_def searchsorted_def s4 s25)
qed

section \<open>The lower bound\<close>

lemma ge1_iff: "ge1 g \<longleftrightarrow> (\<exists>v. g = Fin v \<and> 1 \<le> v)"
  by (cases g) auto


text \<open>
  It is NaN only if a NaN went in: the old value, or the square root of a negative number
  that \<open>numpy.sqrt\<close> turned into NaN.
\<close>

lemma step_ge1:
  assumes "step sq S R dt z (Fin g) = Inr g'"
    and "sq = MathSqrt \<or> (0 \<le> dt \<and> (\<forall>x r. R x = Inr r \<longrightarrow> 0 \<le> r))"
  shows "ge1 g'"
proof -
  obtain s r where s: "S g = Inr s" and r: "R g = Inr r"
    using assms(1) by (auto simp: step_def query_def split: sum.splits)
  have nn: "0 \<le> dt \<and> 0 \<le> r"
    using assms s r by (cases sq) (auto simp: step_def query_def split: sum.splits if_splits)
  then show ?thesis
    using assms(1) s r by (auto simp: step_Fin Let_def)
qed

lemma timestep_ge1:
  assumes "for_particles sq S R dt noise [0..<length gm] (gm, k) = Inr (gm', k')"
    and "list_all ge1 gm"
    and "sq = MathSqrt \<or> (0 \<le> dt \<and> (\<forall>x r. R x = Inr r \<longrightarrow> 0 \<le> r))"
  shows "list_all ge1 gm'"
proof -
  have len: "length gm' = length gm"
    and st: "\<And>i. i < length gm \<Longrightarrow> step sq S R dt (noise (k + i)) (gm ! i) = Inr (gm' ! i)"
    using assms(1) by (simp_all add: timestep_Inr_iff)
  have "ge1 (gm' ! i)" if "i < length gm'" for i
  proof -
    from that len have i: "i < length gm" by simp
    with assms(2) obtain v where "gm ! i = Fin v"
      by (auto simp: list_all_length ge1_iff)
    with st[OF i] assms(3) show ?thesis
      by (auto intro: step_ge1)
  qed
  then show ?thesis by (simp add: list_all_length)
qed

lemma steps_ge1:
  assumes "steps sq S R dt noise n (gm, k) = Inr (gm', k')"
    and "list_all ge1 gm"
    and "sq = MathSqrt \<or> (0 \<le> dt \<and> (\<forall>x r. R x = Inr r \<longrightarrow> 0 \<le> r))"
  shows "list_all ge1 gm'"
  using assms(1,2)
proof (induction n arbitrary: gm k)
  case 0
  then show ?case by simp
next
  case (Suc n)
  from Suc.prems(1) obtain gm1 k1
    where 1: "for_particles sq S R dt noise [0..<length gm] (gm, k) = Inr (gm1, k1)"
      and 2: "steps sq S R dt noise n (gm1, k1) = Inr (gm', k')"
    by (auto split: sum.splits)
  from timestep_ge1[OF 1 Suc.prems(2) assms(3)] Suc.IH[OF 2] show ?case by simp
qed

section \<open>A negative diffusion rate\<close>

lemma step_negative_R:
  assumes "S_intrp g = Inr S" "R_intrp g = Inr R" "R < 0" "0 \<le> dt"
  shows "step MathSqrt S_intrp R_intrp dt z (Fin g) = Inl ValueError_math_domain"
    and "step NumpySqrt S_intrp R_intrp dt z (Fin g) = Inr NaN"
  using assms by (simp_all add: step_def query_def Let_def)

lemma step_eq_step_spec:
  assumes "\<forall>r. R_intrp g = Inr r \<longrightarrow> 0 \<le> r" "0 \<le> dt"
  shows "step sq S_intrp R_intrp dt z (Fin g) =
           (case step_spec S_intrp R_intrp dt z g of Inl e \<Rightarrow> Inl e | Inr g' \<Rightarrow> Inr (Fin g'))"
  using assms by (auto simp: step_def step_spec_def query_def Let_def split: sum.splits)

text \<open>
  Claim C3, as stated: with a negative diffusion rate the step would clamp the rate to 0 and
  complete, as \<open>step_spec\<close> does. The code passes the negative rate to the square root: at
  \<open>R = -1\<close> the step raises with \<open>math.sqrt\<close> and stores NaN with \<open>numpy.sqrt\<close>, where the
  clamped step yields 1799.99.
\<close>

theorem negative_diffusion_counterexample:
  "step_spec (interp_call \<lparr>ix = [1, 3600], iy = [1, 1]\<rparr>)
      (interp_call \<lparr>ix = [1, 3600], iy = [-1, -1]\<rparr>) 0.01 0 1800 = Inr 1799.99
   \<and> step MathSqrt (interp_call \<lparr>ix = [1, 3600], iy = [1, 1]\<rparr>)
      (interp_call \<lparr>ix = [1, 3600], iy = [-1, -1]\<rparr>) 0.01 0 (Fin 1800)
      = Inl ValueError_math_domain
   \<and> step NumpySqrt (interp_call \<lparr>ix = [1, 3600], iy = [1, 1]\<rparr>)
      (interp_call \<lparr>ix = [1, 3600], iy = [-1, -1]\<rparr>) 0.01 0 (Fin 1800)
      = Inr NaN"
  by (simp add: step_def step_spec_def query_def Let_def interp_call_def call_linear_def
      searchsorted_def)

text \<open>
  Claim C3, amended. When the diffusion interpolant yields \<open>R < 0\<close>, the step does not
  clamp it: the square root is taken of the negative value, so that the step raises
  \<open>ValueError\<close> when \<open>sqrt\<close> is \<open>math.sqrt\<close>, and completes with NaN stored for the particle
  when it is \<open>numpy.sqrt\<close>. When \<open>R\<close> is not negative the step is the one of the
  specification.
\<close>

theorem negative_diffusion_not_clamped:
  "(S_intrp g = Inr S \<and> R_intrp g = Inr R \<and> R < 0 \<and> 0 \<le> dt
    \<longrightarrow> step MathSqrt S_intrp R_intrp dt z (Fin g) = Inl ValueError_math_domain
      \<and> step NumpySqrt S_intrp R_intrp dt z (Fin g) = Inr NaN)
   \<and> ((\<forall>r. R_intrp g = Inr r \<longrightarrow> 0 \<le> r) \<and> 0 \<le> dt
    \<longrightarrow> step sq S_intrp R_intrp dt z (Fin g) =
          (case step_spec S_intrp R_intrp dt z g of Inl e \<Rightarrow> Inl e | Inr g' \<Rightarrow> Inr (Fin g')))"
  using step_negative_R[of S_intrp g S R_intrp R dt z] step_eq_step_spec[of R_intrp g dt sq S_intrp z]
  by blast

theorem negative_diffusion_not_clamped_witness:
  "step MathSqrt (interp_call \<lparr>ix = [1, 3600], iy = [1, 1]\<rparr>)
      (interp_call \<lparr>ix = [1, 3600], iy = [-1, -1]\<rparr>) 1 5 (Fin 1800)
      = Inl ValueError_math_domain
   \<and> step NumpySqrt (interp_call \<lparr>ix = [1, 3600], iy = [1, 1]\<rparr>)
      (interp_call \<lparr>ix = [1, 3600], iy = [-1, -1]\<rparr>) 1 5 (Fin 1800)
      = Inr NaN
   \<and> step NumpySqrt (interp_call \<lparr>ix = [1, 3600], iy = [1, 1]\<rparr>)
      (interp_call \<lparr>ix = [1, 3600], iy = [0, 0]\<rparr>) 1 5 (Fin 1800)
      = Inr (Fin 1799)"
proof -
  have q: "interp_call \<lparr>ix = [1, 3600], iy = [1, 1]\<rparr> 1800 = Inr 1"
    "interp_call \<lparr>ix = [1, 3600], iy = [-1, -1]\<rparr> 1800 = Inr (-1)"
    "interp_call \<lparr>ix = [1, 3600], iy = [0, 0]\<rparr> 1800 = Inr 0"
    by (simp_all add: interp_call_def call_linear_def searchsorted_def)
  show ?thesis
    using q
      negative_diffusion_not_clamped[of "interp_call \<lparr>ix = [1, 3600], iy = [1, 1]\<rparr>" 1800 1
        "interp_call \<lparr>ix = [1, 3600], iy = [-1, -1]\<rparr>" "-1" 1 5 NumpySqrt]
      negative_diffusion_not_clamped[of "interp_call \<lparr>ix = [1, 3600], iy = [1, 1]\<rparr>" 1800 1
        "interp_call \<lparr>ix = [1, 3600], iy = [0, 0]\<rparr>" 0 1 5 NumpySqrt]
    by (simp add: step_spec_def)
qed

section \<open>The time loop and the dumps\<close>

lemma steps_add:
  "steps sq S R dt noise (m + n) st =
     (case steps sq S R dt noise m st of Inl e \<Rightarrow> Inl e | Inr st' \<Rightarrow> steps sq S R dt noise n st')"
proof (induction m arbitrary: st)
  case 0
  then show ?case by simp
next
  case (Suc m)
  obtain gm k where st: "st = (gm, k)" by (cases st)
  show ?case
    unfolding st by (simp add: Suc.IH split: sum.splits)
qed

lemma steps_length:
  assumes "steps sq S R dt noise n (gm, k) = Inr (gm', k')"
  shows "length gm' = length gm \<and> k' = k + n * length gm"
  using assms
proof (induction n arbitrary: gm k)
  case 0
  then show ?case by simp
next
  case (Suc n)
  from Suc.prems obtain gm1 k1
    where 1: "for_particles sq S R dt noise [0..<length gm] (gm, k) = Inr (gm1, k1)"
      and 2: "steps sq S R dt noise n (gm1, k1) = Inr (gm', k')"
    by (auto split: sum.splits)
  from 1 have "length gm1 = length gm" "k1 = k + length gm"
    by (simp_all add: timestep_Inr_iff)
  with Suc.IH[OF 2] show ?case by simp
qed

text \<open>A stretch of the time loop that does not contain the index of the mid dump.\<close>

lemma for_timesteps_no_dump:
  assumes "int_half tdim \<notin> int ` set ts"
  shows "for_timesteps sq S R dt noise tdim ts (gm, k, d2) =
     (case steps sq S R dt noise (length ts) (gm, k) of
        Inl e \<Rightarrow> Inl e | Inr (gm', k') \<Rightarrow> Inr (gm', k', d2))"
  using assms
proof (induction ts arbitrary: gm k)
  case Nil
  then show ?case by simp
next
  case (Cons t ts)
  then show ?case
    by (auto split: sum.splits)
qed

lemma for_timesteps_dump:
  assumes "int t = int_half tdim"
  shows "for_timesteps sq S R dt noise tdim [t] (gm, k, d2) =
     (case steps sq S R dt noise 1 (gm, k) of
        Inl e \<Rightarrow> Inl e | Inr (gm', k') \<Rightarrow> Inr (gm', k', gm'))"
  using assms by (auto split: sum.splits)

lemma for_timesteps_append:
  "for_timesteps sq S R dt noise tdim (ts @ us) st =
     (case for_timesteps sq S R dt noise tdim ts st of
        Inl e \<Rightarrow> Inl e | Inr st' \<Rightarrow> for_timesteps sq S R dt noise tdim us st')"
proof (induction ts arbitrary: st)
  case Nil
  then show ?case by simp
next
  case (Cons t ts)
  obtain gm k d2 where st: "st = (gm, k, d2)" by (cases st)
  show ?case
    unfolding st by (simp add: Cons.IH split: sum.splits prod.splits)
qed

lemma for_timesteps_around_dump:
  assumes "int t = int_half tdim"
    and "int_half tdim \<notin> int ` set us" and "int_half tdim \<notin> int ` set vs"
  shows "for_timesteps sq S R dt noise tdim (us @ t # vs) (gm, k, d2) =
     (case steps sq S R dt noise (length us + 1) (gm, k) of
        Inl e \<Rightarrow> Inl e
      | Inr (gm2, k2) \<Rightarrow>
          (case steps sq S R dt noise (length vs) (gm2, k2) of
             Inl e \<Rightarrow> Inl e
           | Inr (gm3, k3) \<Rightarrow> Inr (gm3, k3, gm2)))"
proof -
  have sa: "steps sq S R dt noise (length us + 1) (gm, k) =
      (case steps sq S R dt noise (length us) (gm, k) of
         Inl e \<Rightarrow> Inl e | Inr st' \<Rightarrow> steps sq S R dt noise 1 st')"
    by (rule steps_add)
  show ?thesis
  proof (cases "steps sq S R dt noise (length us) (gm, k)")
    case (Inl e)
    then show ?thesis
      unfolding sa by (simp add: for_timesteps_append for_timesteps_no_dump[OF assms(2)])
  next
    case (Inr st1)
    obtain gm1 k1 where st1: "st1 = (gm1, k1)" by (cases st1)
    have us: "for_timesteps sq S R dt noise tdim us (gm, k, d2) = Inr (gm1, k1, d2)"
      using Inr st1 by (simp add: for_timesteps_no_dump[OF assms(2)])
    have all: "steps sq S R dt noise (length us + 1) (gm, k) =
        (case for_particles sq S R dt noise [0..<length gm1] (gm1, k1) of
           Inl e \<Rightarrow> Inl e | Inr st' \<Rightarrow> Inr st')"
      unfolding sa using Inr st1 by (simp split: sum.splits)
    show ?thesis
    proof (cases "for_particles sq S R dt noise [0..<length gm1] (gm1, k1)")
      case (Inl e)
      then show ?thesis
        unfolding all by (simp add: for_timesteps_append us)
    next
      case (Inr st2)
      obtain gm2 k2 where st2: "st2 = (gm2, k2)" by (cases st2)
      show ?thesis
        unfolding all using Inr st2 assms(1)
        by (simp add: for_timesteps_append us for_timesteps_no_dump[OF assms(3)])
    qed
  qed
qed

text \<open>
  With at least one time step, the mid dump is taken in the pass of index \<open>tdim div 2\<close>,
  that is after \<open>tdim div 2 + 1\<close> completed passes, and the last dump after all \<open>tdim\<close>.
\<close>

lemma run_positive:
  assumes "0 < tdim"
  shows "run sq S R tdim dt noise gm =
     (case ensemble_after sq S R dt noise (nat (tdim div 2) + 1) gm of
        Inl e \<Rightarrow> Inl e
      | Inr mid \<Rightarrow>
          (case ensemble_after sq S R dt noise (nat tdim) gm of
             Inl e \<Rightarrow> Inl e
           | Inr fin \<Rightarrow> Inr \<lparr>gmdist_dump1 = gm, gmdist_dump2 = mid, gmdist_dump3 = fin\<rparr>))"
proof -
  define h where "h = nat (tdim div 2)"
  define vs where "vs = [Suc h..<nat tdim]"
  define us where "us = [0..<h]"
  have hlt: "h < nat tdim" using assms by (simp add: h_def)
  have ih: "int h = int_half tdim" using assms by (simp add: h_def int_half_def)
  have "[0..<nat tdim] = [0..<h] @ [h..<nat tdim]"
    using hlt by (metis le0 less_imp_le_nat upt_add_eq_append le_add_diff_inverse)
  then have split: "[0..<nat tdim] = us @ h # vs"
    using hlt by (simp add: upt_conv_Cons us_def vs_def)
  have n1: "int_half tdim \<notin> int ` set us" using ih by (auto simp: us_def)
  have n2: "int_half tdim \<notin> int ` set vs" using ih by (auto simp: vs_def)
  have tot: "nat tdim = (length us + 1) + length vs" using hlt by (simp add: us_def vs_def)
  have lu: "nat (tdim div 2) + 1 = length us + 1" by (simp add: us_def h_def)
  show ?thesis
    unfolding run_def ensemble_after_def Let_def split lu
      for_timesteps_around_dump[OF ih n1 n2]
    unfolding tot steps_add
    by (simp split: sum.splits prod.splits)
qed

text \<open>
  Claim C5. With \<open>tdim = 1000\<close> the mid dump is the array right after the pass of index
  \<open>500\<close>, that is after 501 completed passes of the particle loop, and the last dump is
  the array after all 1000 passes; the first dump is the initial array. An exception in any
  pass is the outcome of the run.
\<close>

theorem snapshot_timing:
  "run sq S_intrp R_intrp 1000 dt noise gmdist =
     (case ensemble_after sq S_intrp R_intrp dt noise 501 gmdist of
        Inl e \<Rightarrow> Inl e
      | Inr mid \<Rightarrow>
          (case ensemble_after sq S_intrp R_intrp dt noise 1000 gmdist of
             Inl e \<Rightarrow> Inl e
           | Inr fin \<Rightarrow>
               Inr \<lparr>gmdist_dump1 = gmdist, gmdist_dump2 = mid, gmdist_dump3 = fin\<rparr>))"
proof -
  have n: "nat (1000 :: int) = 1000" "nat ((1000 :: int) div 2) + 1 = 501"
    by simp_all
  show ?thesis
    using run_positive[of 1000 sq S_intrp R_intrp dt noise gmdist] unfolding n by simp
qed

theorem snapshot_timing_witness:
  "run MathSqrt (interp_call \<lparr>ix = [1, 3600], iy = [1, 1]\<rparr>)
      (interp_call \<lparr>ix = [1, 3600], iy = [0, 0]\<rparr>) 1000 1 zero_noise [Fin 2000]
     = Inr \<lparr>gmdist_dump1 = [Fin 2000], gmdist_dump2 = [Fin 1499], gmdist_dump3 = [Fin 1000]\<rparr>"
proof -
  let ?S = "interp_call \<lparr>ix = [1, 3600], iy = [1, 1]\<rparr>"
  let ?R = "interp_call \<lparr>ix = [1, 3600], iy = [0, 0]\<rparr>"
  have one: "step MathSqrt ?S ?R 1 z (Fin g) = Inr (Fin (g - 1))" if "2 \<le> g" "g \<le> 3600" for g z
    using that
    by (simp add: step_def query_def Let_def interp_call_def call_linear_def searchsorted_def)
  have many: "steps MathSqrt ?S ?R 1 zero_noise n ([Fin g], k) = Inr ([Fin (g - real n)], k + n)"
    if "1 + real n \<le> g" "g \<le> 3600" for n g k
    using that
  proof (induction n arbitrary: g k)
    case 0
    then show ?case by simp
  next
    case (Suc n)
    have "steps MathSqrt ?S ?R 1 zero_noise n ([Fin (g - 1)], Suc k)
        = Inr ([Fin (g - 1 - real n)], Suc k + n)"
      using Suc.prems by (intro Suc.IH) auto
    moreover have "step MathSqrt ?S ?R 1 (zero_noise k) (Fin g) = Inr (Fin (g - 1))"
      using Suc.prems by (intro one) auto
    ultimately show ?case
      by (simp add: algebra_simps)
  qed
  have "ensemble_after MathSqrt ?S ?R 1 zero_noise 501 [Fin 2000] = Inr [Fin 1499]"
    "ensemble_after MathSqrt ?S ?R 1 zero_noise 1000 [Fin 2000] = Inr [Fin 1000]"
    using many[of 501 2000 0] many[of 1000 2000 0] by (simp_all add: ensemble_after_def)
  then show ?thesis
    using snapshot_timing[of MathSqrt ?S ?R 1 zero_noise "[Fin 2000]"] by simp
qed

section \<open>Dependence on the noise\<close>

lemma for_particles_noise_cong:
  assumes "\<forall>j<length is. noise (k + j) = noise' (k + j)"
  shows "for_particles sq S R dt noise is (gm, k) = for_particles sq S R dt noise' is (gm, k)"
  using assms
proof (induction "is" arbitrary: gm k)
  case Nil
  then show ?case by simp
next
  case (Cons i "is")
  have 0: "noise k = noise' k" using Cons.prems by force
  have "\<forall>j<length is. noise (Suc k + j) = noise' (Suc k + j)"
    using Cons.prems by force
  from Cons.IH[OF this] 0 show ?case
    by (simp split: sum.splits)
qed

lemma for_timesteps_noise_cong:
  assumes "\<forall>j<length ts * length gm. noise (k + j) = noise' (k + j)"
  shows "for_timesteps sq S R dt noise tdim ts (gm, k, d2)
       = for_timesteps sq S R dt noise' tdim ts (gm, k, d2)"
  using assms
proof (induction ts arbitrary: gm k d2)
  case Nil
  then show ?case by simp
next
  case (Cons t ts)
  have "\<forall>j<length [0..<length gm]. noise (k + j) = noise' (k + j)"
    using Cons.prems by auto
  from for_particles_noise_cong[OF this]
  have fp: "for_particles sq S R dt noise [0..<length gm] (gm, k)
      = for_particles sq S R dt noise' [0..<length gm] (gm, k)" .
  show ?case
  proof (cases "for_particles sq S R dt noise' [0..<length gm] (gm, k)")
    case (Inl e)
    then show ?thesis by (simp add: fp)
  next
    case (Inr st)
    obtain gm1 k1 where st: "st = (gm1, k1)" by (cases st)
    from Inr st have l: "length gm1 = length gm" and k1: "k1 = k + length gm"
      by (simp_all add: timestep_Inr_iff)
    have "\<forall>j<length ts * length gm1. noise (k1 + j) = noise' (k1 + j)"
    proof (intro allI impI)
      fix j assume "j < length ts * length gm1"
      then have "length gm + j < length (t # ts) * length gm" by (simp add: l)
      with Cons.prems show "noise (k1 + j) = noise' (k1 + j)"
        by (simp add: k1 add.assoc)
    qed
    from Cons.IH[OF this] show ?thesis
      by (simp add: fp Inr st)
  qed
qed

text \<open>
  Claim C6. The run is a function of its inputs and of the first \<open>tdim * Nsmpl\<close> draws of
  the noise source: two runs on the same inputs whose noise sources agree on these draws
  return the same three dumps, or raise the same exception.
\<close>

theorem run_deterministic:
  "(\<forall>j < nat tdim * length gmdist. noise j = noise' j)
    \<longrightarrow> run sq S_intrp R_intrp tdim dt noise gmdist = run sq S_intrp R_intrp tdim dt noise' gmdist"
  using for_timesteps_noise_cong[of "[0..<nat tdim]" gmdist noise 0 noise']
  by (simp add: run_def)

theorem run_deterministic_witness:
  "run NumpySqrt (interp_call \<lparr>ix = [1, 3600], iy = [10, 10]\<rparr>)
      (interp_call \<lparr>ix = [1, 3600], iy = [4, 4]\<rparr>) 2 0.25 real [Fin 1800, Fin 1700]
   = run NumpySqrt (interp_call \<lparr>ix = [1, 3600], iy = [10, 10]\<rparr>)
      (interp_call \<lparr>ix = [1, 3600], iy = [4, 4]\<rparr>) 2 0.25 (\<lambda>n. if n < 4 then real n else 0)
      [Fin 1800, Fin 1700]"
  using run_deterministic[of 2 "[Fin 1800, Fin 1700]" real "\<lambda>n. if n < 4 then real n else 0"
      NumpySqrt "interp_call \<lparr>ix = [1, 3600], iy = [10, 10]\<rparr>"
      "interp_call \<lparr>ix = [1, 3600], iy = [4, 4]\<rparr>" "0.25"]
  by simp

section \<open>Degenerate configurations\<close>

lemma run_nonpositive:
  assumes "tdim \<le> 0"
  shows "run sq S R tdim dt noise gm =
     Inr \<lparr>gmdist_dump1 = gm, gmdist_dump2 = map (\<lambda>g. fmul g (Fin 0)) gm, gmdist_dump3 = gm\<rparr>"
  using assms by (simp add: run_def)

lemma for_timesteps_empty:
  "for_timesteps sq S R dt noise tdim ts ([], k, []) = Inr ([], k, [])"
  by (induction ts) auto

lemma run_empty:
  "run sq S R tdim dt noise [] =
     Inr \<lparr>gmdist_dump1 = [], gmdist_dump2 = [], gmdist_dump3 = []\<rparr>"
  by (simp add: run_def for_timesteps_empty)

lemma notebook_empty:
  "notebook sq S39 R40 chi0 Kalpha tmax tdim [] noise =
     (if tdim = 0 then Inl ZeroDivisionError else Inl ValueError_zero_size)"
  by (simp add: notebook_def sampling_def dt_of_def interpolation_def gmlst_of_def np_max_def)

lemma notebook_tdim_0:
  "notebook sq S39 R40 chi0 Kalpha tmax 0 zs noise = Inl ZeroDivisionError"
  by (simp add: notebook_def dt_of_def)

lemma step_negative_dt:
  assumes "S_intrp g = Inr S" "R_intrp g = Inr R" "dt < 0"
  shows "step MathSqrt S_intrp R_intrp dt z (Fin g) = Inl ValueError_math_domain"
    and "step NumpySqrt S_intrp R_intrp dt z (Fin g) = Inr NaN"
  using assms by (simp_all add: step_def query_def Let_def)

text \<open>
  Claim C7, as stated: a run with \<open>T \<le> 0\<close> or \<open>dt \<le> 0\<close> would fail with a configuration
  error before any step. The loop of cell 4 checks neither: with \<open>tdim = 0\<close>, and with
  \<open>tdim = -1\<close> and \<open>dt = -5\<close>, it completes without a step; with \<open>tdim = 1\<close> and \<open>dt = 0\<close> it
  performs the step and completes.
\<close>

theorem configuration_error_counterexample:
  "run MathSqrt (interp_call \<lparr>ix = [1, 3600], iy = [10, 10]\<rparr>)
      (interp_call \<lparr>ix = [1, 3600], iy = [0, 0]\<rparr>) 0 0.005 zero_noise [Fin 1800]
     = Inr \<lparr>gmdist_dump1 = [Fin 1800], gmdist_dump2 = [Fin 0], gmdist_dump3 = [Fin 1800]\<rparr>
   \<and> run MathSqrt (interp_call \<lparr>ix = [1, 3600], iy = [10, 10]\<rparr>)
      (interp_call \<lparr>ix = [1, 3600], iy = [0, 0]\<rparr>) (- 1) (- 5) zero_noise [Fin 1800]
     = Inr \<lparr>gmdist_dump1 = [Fin 1800], gmdist_dump2 = [Fin 0], gmdist_dump3 = [Fin 1800]\<rparr>
   \<and> run MathSqrt (interp_call \<lparr>ix = [1, 3600], iy = [10, 10]\<rparr>)
      (interp_call \<lparr>ix = [1, 3600], iy = [0, 0]\<rparr>) 1 0 zero_noise [Fin 1800]
     = Inr \<lparr>gmdist_dump1 = [Fin 1800], gmdist_dump2 = [Fin 1800], gmdist_dump3 = [Fin 1800]\<rparr>"
  by (simp add: run_def step_def query_def Let_def int_half_def interp_call_def call_linear_def
      searchsorted_def zero_noise_def)

text \<open>
  Claim C7, amended. Neither \<open>T\<close> nor \<open>dt\<close> is validated and there is no configuration
  error. With \<open>T \<le> 0\<close> the time loop performs no step and the run completes: the first and
  the last dump are the initial ensemble, the mid dump keeps its initial zeros. In the
  notebook \<open>dt\<close> is \<open>tmax/tdim\<close>, which raises \<open>ZeroDivisionError\<close> for \<open>tdim = 0\<close>. A \<open>dt < 0\<close>
  is met in the first step only, where \<open>sqrt(dt)\<close> raises \<open>ValueError\<close> (\<open>math.sqrt\<close>) or
  yields NaN (\<open>numpy.sqrt\<close>). On an empty ensemble the integration loop completes with
  three empty dumps for every \<open>T\<close> and \<open>dt\<close>; the notebook as a whole does not get there,
  since \<open>np.max\<close> of the empty ensemble raises \<open>ValueError\<close> when the grid is built.
\<close>

theorem unvalidated_configuration:
  "(tdim \<le> 0 \<longrightarrow>
      run sq S_intrp R_intrp tdim dt noise gmdist =
        Inr \<lparr>gmdist_dump1 = gmdist, gmdist_dump2 = map (\<lambda>g. fmul g (Fin 0)) gmdist,
             gmdist_dump3 = gmdist\<rparr>)
   \<and> notebook sq S39 R40 chi0 Kalpha tmax 0 zs noise = Inl ZeroDivisionError
   \<and> (S_intrp g = Inr S \<and> R_intrp g = Inr R \<and> dt < 0 \<longrightarrow>
        step MathSqrt S_intrp R_intrp dt z (Fin g) = Inl ValueError_math_domain
        \<and> step NumpySqrt S_intrp R_intrp dt z (Fin g) = Inr NaN)
   \<and> run sq S_intrp R_intrp tdim dt noise [] =
        Inr \<lparr>gmdist_dump1 = [], gmdist_dump2 = [], gmdist_dump3 = []\<rparr>
   \<and> (tdim \<noteq> 0 \<longrightarrow>
        notebook sq S39 R40 chi0 Kalpha tmax tdim [] noise = Inl ValueError_zero_size)"
  using run_nonpositive[of tdim sq S_intrp R_intrp dt noise gmdist]
    step_negative_dt[of S_intrp g S R_intrp R dt z]
  by (simp add: notebook_tdim_0 run_empty notebook_empty)

theorem unvalidated_configuration_witness:
  "run NumpySqrt (interp_call \<lparr>ix = [1, 3600], iy = [10, 10]\<rparr>)
      (interp_call \<lparr>ix = [1, 3600], iy = [4, 4]\<rparr>) (- 3) (- 1) real [Fin 1800, Fin 1700]
     = Inr \<lparr>gmdist_dump1 = [Fin 1800, Fin 1700], gmdist_dump2 = [Fin 0, Fin 0],
            gmdist_dump3 = [Fin 1800, Fin 1700]\<rparr>
   \<and> step MathSqrt (interp_call \<lparr>ix = [1, 3600], iy = [10, 10]\<rparr>)
      (interp_call \<lparr>ix = [1, 3600], iy = [4, 4]\<rparr>) (- 1) 2 (Fin 1800)
     = Inl ValueError_math_domain
   \<and> step NumpySqrt (interp_call \<lparr>ix = [1, 3600], iy = [10, 10]\<rparr>)
      (interp_call \<lparr>ix = [1, 3600], iy = [4, 4]\<rparr>) (- 1) 2 (Fin 1800)
     = Inr NaN
   \<and> notebook NumpySqrt (\<lambda>chi K. 10) (\<lambda>chi gm K. 4) 0.1 1 5 1000 [] real
     = Inl ValueError_zero_size"
proof -
  have q: "interp_call \<lparr>ix = [1, 3600], iy = [10, 10]\<rparr> 1800 = Inr 10"
    "interp_call \<lparr>ix = [1, 3600], iy = [4, 4]\<rparr> 1800 = Inr 4"
    by (simp_all add: interp_call_def call_linear_def searchsorted_def)
  show ?thesis
    using q
      unvalidated_configuration[of "- 3" NumpySqrt
        "interp_call \<lparr>ix = [1, 3600], iy = [10, 10]\<rparr>"
        "interp_call \<lparr>ix = [1, 3600], iy = [4, 4]\<rparr>" "- 1" real "[Fin 1800, Fin 1700]"
        "\<lambda>chi K. 10" "\<lambda>chi gm K. 4" "0.1" 1 5 "[]" 1800 10 4 2]
      unvalidated_configuration[of 1000 NumpySqrt
        "interp_call \<lparr>ix = [1, 3600], iy = [10, 10]\<rparr>"
        "interp_call \<lparr>ix = [1, 3600], iy = [4, 4]\<rparr>" "- 1" real "[Fin 1800, Fin 1700]"
        "\<lambda>chi K. 10" "\<lambda>chi gm K. 4" "0.1" 1 5 "[]" 1800 10 4 2]
    by simp
qed

section \<open>The order of the particles\<close>

text \<open>
  Claim C9. Within a time step, let every particle \<open>i\<close> keep the draw the loop of cell 4
  gives it (draw number \<open>k + i\<close>). Visiting the particles in any order, that is along any
  permutation \<open>is\<close> of the indices, completes with an ensemble exactly when the loop of
  cell 4 completes with that ensemble; so both produce the same ensemble, and one raises
  exactly when the other does.
\<close>

theorem particle_order_irrelevant:
  "distinct is \<and> set is = {0..<length gmdist} \<longrightarrow>
     (for_particles_order sq S_intrp R_intrp dt (\<lambda>i. noise (k + i)) is gmdist = Inr gmdist'
      \<longleftrightarrow> for_particles sq S_intrp R_intrp dt noise [0..<length gmdist] (gmdist, k)
            = Inr (gmdist', k + length gmdist))"
proof
  assume a: "distinct is \<and> set is = {0..<length gmdist}"
  then have b: "\<forall>i\<in>set is. i < length gmdist" by simp
  show "for_particles_order sq S_intrp R_intrp dt (\<lambda>i. noise (k + i)) is gmdist = Inr gmdist'
      \<longleftrightarrow> for_particles sq S_intrp R_intrp dt noise [0..<length gmdist] (gmdist, k)
            = Inr (gmdist', k + length gmdist)"
    using a by (simp add: for_particles_order_Inr_iff[OF _ b] timestep_Inr_iff)
qed

theorem particle_order_irrelevant_witness:
  "distinct [2, 0, 1 :: nat] \<and> set [2, 0, 1] = {0..<length [Fin 1800, Fin 1700, Fin 1600]}
   \<and> for_particles_order MathSqrt (interp_call \<lparr>ix = [1, 3600], iy = [10, 10]\<rparr>)
        (interp_call \<lparr>ix = [1, 3600], iy = [4, 4]\<rparr>) (1 / 4) (\<lambda>i. real (0 + i)) [2, 0, 1]
        [Fin 1800, Fin 1700, Fin 1600]
      = Inr [Fin 1797.5, Fin 1698.5, Fin 1599.5]"
proof -
  have s4: "sqrt 4 = 2" and s25: "sqrt (1 / 4) = 1 / 2"
    using real_sqrt_abs[of 2] real_sqrt_abs[of "1 / 2"] by (simp_all add: power2_eq_square)
  have src: "for_particles MathSqrt (interp_call \<lparr>ix = [1, 3600], iy = [10, 10]\<rparr>)
        (interp_call \<lparr>ix = [1, 3600], iy = [4, 4]\<rparr>) (1 / 4) real
        [0..<length [Fin 1800, Fin 1700, Fin 1600]] ([Fin 1800, Fin 1700, Fin 1600], 0)
      = Inr ([Fin 1797.5, Fin 1698.5, Fin 1599.5], 0 + length [Fin 1800, Fin 1700, Fin 1600])"
    by (simp add: step_def query_def Let_def interp_call_def call_linear_def searchsorted_def
        s4 s25 upt_rec)
  have p: "distinct [2, 0, 1 :: nat] \<and> set [2, 0, 1] = {0..<length [Fin 1800, Fin 1700, Fin 1600]}"
    by auto
  from particle_order_irrelevant[of "[2, 0, 1]" "[Fin 1800, Fin 1700, Fin 1600]" MathSqrt
      "interp_call \<lparr>ix = [1, 3600], iy = [10, 10]\<rparr>"
      "interp_call \<lparr>ix = [1, 3600], iy = [4, 4]\<rparr>" "1 / 4" real 0
      "[Fin 1797.5, Fin 1698.5, Fin 1599.5]"] p src
  show ?thesis by blast
qed

section \<open>The grid and the interpolants\<close>

lemma linspace_length: "length (linspace a b num) = num"
  by (auto simp: linspace_def Let_def)

lemma linspace_nth:
  assumes "2 \<le> num" "i < num"
  shows "linspace a b num ! i = a + real i * ((b - a) / real (num - 1))"
proof (cases "i = num - 1")
  case True
  have "real (num - 1) \<noteq> 0" using assms by simp
  then have "a + real (num - 1) * ((b - a) / real (num - 1)) = b" by simp
  moreover have "linspace a b num ! (num - 1) = b"
    using assms by (simp add: linspace_def Let_def nth_append)
  ultimately show ?thesis using True by simp
next
  case False
  with assms have "i < num - 1" by simp
  then show ?thesis
    using assms by (simp add: linspace_def Let_def nth_append)
qed

lemma linspace_strict:
  assumes "2 \<le> num" "a < b"
  shows "sorted_wrt (<) (linspace a b num)"
proof -
  have st: "0 < (b - a) / real (num - 1)" using assms by simp
  have "linspace a b num ! i < linspace a b num ! j" if "i < j" "j < num" for i j
  proof -
    have "real i < real j" using that by simp
    from mult_strict_right_mono[OF this st]
    show ?thesis using that assms by (simp only: linspace_nth)
  qed
  then show ?thesis
    by (simp add: sorted_wrt_iff_nth_less linspace_length)
qed

lemma linspace_hd_last:
  assumes "2 \<le> num"
  shows "hd (linspace a b num) = a" "last (linspace a b num) = b"
  using assms by (simp_all add: linspace_def Let_def hd_append upt_conv_Cons)

text \<open>On nodes that are already sorted, \<open>interp1d\<close> keeps the two arrays as they are.\<close>

lemma interp1d_sorted:
  assumes "sorted x" "length y = length x"
  shows "ix (interp1d x y) = x" "iy (interp1d x y) = y"
proof -
  have "sort_key fst (zip x y) = zip x y"
    using assms by (intro sort_key_id_if_sorted) simp
  then show "ix (interp1d x y) = x" "iy (interp1d x y) = y"
    using assms by (simp_all add: interp1d_def)
qed

lemma np_max_Max:
  assumes "xs \<noteq> []"
  shows "np_max xs = Inr (Max (set xs))"
proof -
  from assms obtain a r where xs: "xs = a # r" by (cases xs) auto
  have "fold max r a = Max (set (a # r))" by (rule Max.set_eq_fold[symmetric])
  then show ?thesis unfolding xs np_max_def by simp
qed

lemma sampling_ge1: "g \<in> set (sampling zs) \<Longrightarrow> 1 \<le> g"
  by (auto simp: sampling_def Let_def)

lemma sampling_Max_ge1:
  assumes "zs \<noteq> []"
  shows "1 \<le> Max (set (sampling zs))"
proof -
  have "sampling zs \<noteq> []" using assms by (simp add: sampling_def)
  then have ne: "set (sampling zs) \<noteq> {}" by simp
  then have "Max (set (sampling zs)) \<in> set (sampling zs)" by (intro Max_in) simp_all
  then show ?thesis by (rule sampling_ge1)
qed

text \<open>Where \<open>searchsorted\<close> lands on strictly increasing nodes.\<close>

lemma searchsorted_first:
  assumes "xs \<noteq> []" "x \<le> xs ! 0"
  shows "searchsorted xs x = 0"
  using assms by (cases xs) (simp_all add: searchsorted_def)

lemma searchsorted_segment:
  assumes "sorted_wrt (<) xs" "Suc i < length xs" "xs ! i < x" "x \<le> xs ! Suc i"
  shows "searchsorted xs x = Suc i"
proof -
  have "takeWhile (\<lambda>u. u < x) xs = take (Suc i) xs"
  proof (rule takeWhile_eq_take_P_nth)
    fix j assume "j < Suc i" "j < length xs"
    then have "xs ! j \<le> xs ! i"
      using sorted_wrt_nth_less[OF assms(1), of j i] assms(2) by (cases "j = i") auto
    with assms(3) show "xs ! j < x" by simp
  next
    show "\<not> xs ! Suc i < x" using assms(4) by simp
  qed
  then show ?thesis using assms(2) by (simp add: searchsorted_def)
qed

text \<open>The value on the segment between node \<open>i\<close> and node \<open>i + 1\<close>.\<close>

lemma call_linear_segment:
  assumes "sorted_wrt (<) (ix f)" "Suc i < length (ix f)"
    and "ix f ! i \<le> x" "x \<le> ix f ! Suc i"
  shows "call_linear f x =
     iy f ! i + (iy f ! Suc i - iy f ! i) / (ix f ! Suc i - ix f ! i) * (x - ix f ! i)"
proof (cases "ix f ! i < x")
  case True
  then have "searchsorted (ix f) x = Suc i"
    using assms by (intro searchsorted_segment) simp_all
  then show ?thesis
    using assms(2) by (simp add: call_linear_def Let_def)
next
  case False
  with assms(3) have x: "x = ix f ! i" by simp
  show ?thesis
  proof (cases i)
    case 0
    have "searchsorted (ix f) x = 0"
      using assms(2) x 0 by (intro searchsorted_first) auto
    then show ?thesis
      using assms(2) x 0 by (simp add: call_linear_def Let_def)
  next
    case (Suc j)
    have lt: "ix f ! j < ix f ! i"
      using assms(1,2) Suc by (simp add: sorted_wrt_iff_nth_less)
    then have "searchsorted (ix f) x = Suc j"
      using assms(1,2) Suc x by (intro searchsorted_segment) simp_all
    then show ?thesis
      using assms(2) x Suc lt by (simp add: call_linear_def Let_def)
  qed
qed

lemma call_linear_node:
  assumes "sorted_wrt (<) (ix f)" "2 \<le> length (ix f)" "i < length (ix f)"
  shows "call_linear f (ix f ! i) = iy f ! i"
proof (cases "Suc i < length (ix f)")
  case True
  then show ?thesis
    using sorted_wrt_nth_less[OF assms(1), of i "Suc i"] assms(1)
    by (subst call_linear_segment[of f i]) simp_all
next
  case False
  with assms obtain j where j: "i = Suc j" by (cases i) auto
  have lt: "ix f ! j < ix f ! Suc j"
    using assms(1,3) j by (simp add: sorted_wrt_iff_nth_less)
  show ?thesis
    using assms(1,3) j lt by (subst call_linear_segment[of f j]) simp_all
qed

text \<open>What cell 3 builds from a sampled, non-empty ensemble.\<close>

lemma interpolation_sampling:
  assumes "zs \<noteq> []"
    and m_def: "m = Max (set (sampling zs))"
    and gmlst_def: "gmlst = linspace 1 (2 * m) 200"
  shows "np_max (sampling zs) = Inr m"
    and "gmlst_of (sampling zs) = Inr gmlst"
    and "interpolation S39 R40 chi0 Kalpha (sampling zs) =
          Inr (interp1d gmlst (S_lst_of S39 chi0 Kalpha gmlst),
               interp1d gmlst (R_lst_of R40 chi0 Kalpha gmlst))"
    and "sorted_wrt (<) gmlst"
    and "ix (interp1d gmlst (S_lst_of S39 chi0 Kalpha gmlst)) = gmlst"
    and "iy (interp1d gmlst (S_lst_of S39 chi0 Kalpha gmlst)) = S_lst_of S39 chi0 Kalpha gmlst"
    and "ix (interp1d gmlst (R_lst_of R40 chi0 Kalpha gmlst)) = gmlst"
    and "iy (interp1d gmlst (R_lst_of R40 chi0 Kalpha gmlst)) = R_lst_of R40 chi0 Kalpha gmlst"
proof -
  have ne: "sampling zs \<noteq> []" using assms(1) by (simp add: sampling_def)
  show mx: "np_max (sampling zs) = Inr m"
    unfolding m_def by (rule np_max_Max[OF ne])
  show gl: "gmlst_of (sampling zs) = Inr gmlst"
    by (simp add: gmlst_of_def mx gmlst_def)
  show "interpolation S39 R40 chi0 Kalpha (sampling zs) =
          Inr (interp1d gmlst (S_lst_of S39 chi0 Kalpha gmlst),
               interp1d gmlst (R_lst_of R40 chi0 Kalpha gmlst))"
    by (simp add: interpolation_def gl)
  have "1 \<le> m" unfolding m_def by (rule sampling_Max_ge1[OF assms(1)])
  then have "(1::real) < 2 * m" by simp
  then show st: "sorted_wrt (<) gmlst"
    unfolding gmlst_def by (intro linspace_strict) simp_all
  then have so: "sorted gmlst" by (rule strict_sorted_imp_sorted)
  show "ix (interp1d gmlst (S_lst_of S39 chi0 Kalpha gmlst)) = gmlst"
    "iy (interp1d gmlst (S_lst_of S39 chi0 Kalpha gmlst)) = S_lst_of S39 chi0 Kalpha gmlst"
    "ix (interp1d gmlst (R_lst_of R40 chi0 Kalpha gmlst)) = gmlst"
    "iy (interp1d gmlst (R_lst_of R40 chi0 Kalpha gmlst)) = R_lst_of R40 chi0 Kalpha gmlst"
    using so by (simp_all add: interp1d_sorted S_lst_of_def R_lst_of_def)
qed

lemma interp_call_segment:
  assumes "sorted_wrt (<) (ix f)" "Suc i < length (ix f)"
    and "ix f ! i \<le> x" "x \<le> ix f ! Suc i"
  shows "interp_call f x =
     Inr (iy f ! i + (iy f ! Suc i - iy f ! i) / (ix f ! Suc i - ix f ! i) * (x - ix f ! i))"
proof -
  have ne: "ix f \<noteq> []" using assms(2) by auto
  have "ix f ! 0 \<le> ix f ! i"
    using sorted_wrt_nth_less[OF assms(1), of 0 i] assms(2) by (cases i) auto
  then have lo: "hd (ix f) \<le> x" using assms(3) ne by (simp add: hd_conv_nth)
  have "ix f ! Suc i \<le> ix f ! (length (ix f) - 1)"
    using assms(2) by (intro sorted_nth_mono strict_sorted_imp_sorted[OF assms(1)]) auto
  then have hi: "x \<le> last (ix f)" using assms(4) ne by (simp add: last_conv_nth)
  show ?thesis
    using lo hi call_linear_segment[OF assms] by (simp add: interp_call_def)
qed

lemma interp_call_node:
  assumes "sorted_wrt (<) (ix f)" "2 \<le> length (ix f)" "i < length (ix f)"
  shows "interp_call f (ix f ! i) = Inr (iy f ! i)"
proof -
  have ne: "ix f \<noteq> []" using assms(2) by auto
  have "ix f ! 0 \<le> ix f ! i"
    using sorted_wrt_nth_less[OF assms(1), of 0 i] assms(3) by (cases i) auto
  then have lo: "hd (ix f) \<le> ix f ! i" using ne by (simp add: hd_conv_nth)
  have "ix f ! i \<le> ix f ! (length (ix f) - 1)"
    using assms(3) by (intro sorted_nth_mono strict_sorted_imp_sorted[OF assms(1)]) auto
  then have hi: "ix f ! i \<le> last (ix f)" using ne by (simp add: last_conv_nth)
  show ?thesis
    using lo hi call_linear_node[OF assms] by (simp add: interp_call_def)
qed

text \<open>
  Claim C8. For a non-empty sampled ensemble, let \<open>m\<close> be its maximum: \<open>m\<close> is a value of
  the ensemble, no value of the ensemble exceeds it, and it is what \<open>np.max\<close> returns. Cell 3
  succeeds; the grid has exactly 200 points, point \<open>i\<close> is \<open>1 + i * (2 m - 1) / 199\<close>, so
  that the points are equally spaced, the first is 1 and the last is \<open>2 m\<close>. Each
  interpolant returns at node \<open>i\<close> the tabulated value of node \<open>i\<close>, and between two
  adjacent nodes the value on the straight line through their tabulated values.
\<close>

theorem coefficient_grid:
  "zs \<noteq> [] \<longrightarrow>
     Max (set (sampling zs)) \<in> set (sampling zs)
   \<and> (\<forall>g\<in>set (sampling zs). g \<le> Max (set (sampling zs)))
   \<and> np_max (sampling zs) = Inr (Max (set (sampling zs)))
   \<and> (\<exists>gmlst S_intrp R_intrp.
      gmlst_of (sampling zs) = Inr gmlst
    \<and> interpolation S39 R40 chi0 Kalpha (sampling zs) = Inr (S_intrp, R_intrp)
    \<and> length gmlst = 200 \<and> gmlst ! 0 = 1 \<and> gmlst ! 199 = 2 * Max (set (sampling zs))
    \<and> (\<forall>i<200. gmlst ! i = 1 + real i * ((2 * Max (set (sampling zs)) - 1) / 199))
    \<and> (\<forall>i<200.
          interp_call S_intrp (gmlst ! i) = Inr (S_lst_of S39 chi0 Kalpha gmlst ! i)
        \<and> interp_call R_intrp (gmlst ! i) = Inr (R_lst_of R40 chi0 Kalpha gmlst ! i)
        \<and> S_lst_of S39 chi0 Kalpha gmlst ! i = S39 (gmlst ! i / 1800 * chi0) Kalpha
        \<and> R_lst_of R40 chi0 Kalpha gmlst ! i = R40 (gmlst ! i / 1800 * chi0) (gmlst ! i) Kalpha)
    \<and> (\<forall>i<199. \<forall>x. gmlst ! i \<le> x \<and> x \<le> gmlst ! Suc i \<longrightarrow>
          interp_call S_intrp x =
            Inr (S_lst_of S39 chi0 Kalpha gmlst ! i
              + (S_lst_of S39 chi0 Kalpha gmlst ! Suc i - S_lst_of S39 chi0 Kalpha gmlst ! i)
                / (gmlst ! Suc i - gmlst ! i) * (x - gmlst ! i))
        \<and> interp_call R_intrp x =
            Inr (R_lst_of R40 chi0 Kalpha gmlst ! i
              + (R_lst_of R40 chi0 Kalpha gmlst ! Suc i - R_lst_of R40 chi0 Kalpha gmlst ! i)
                / (gmlst ! Suc i - gmlst ! i) * (x - gmlst ! i))))"
proof
  assume ne: "zs \<noteq> []"
  define m where "m = Max (set (sampling zs))"
  define gmlst where "gmlst = linspace 1 (2 * m) 200"
  define S_intrp where "S_intrp = interp1d gmlst (S_lst_of S39 chi0 Kalpha gmlst)"
  define R_intrp where "R_intrp = interp1d gmlst (R_lst_of R40 chi0 Kalpha gmlst)"
  note a = interpolation_sampling[OF ne m_def gmlst_def]
  have b: "np_max (sampling zs) = Inr m" "gmlst_of (sampling zs) = Inr gmlst"
    "interpolation S39 R40 chi0 Kalpha (sampling zs) = Inr (S_intrp, R_intrp)"
    "sorted_wrt (<) gmlst"
    "ix S_intrp = gmlst" "iy S_intrp = S_lst_of S39 chi0 Kalpha gmlst"
    "ix R_intrp = gmlst" "iy R_intrp = R_lst_of R40 chi0 Kalpha gmlst"
    unfolding S_intrp_def R_intrp_def by (rule a)+
  have "sampling zs \<noteq> []" using ne by (simp add: sampling_def)
  then have sne: "set (sampling zs) \<noteq> {}" by simp
  have mem: "m \<in> set (sampling zs)"
    unfolding m_def using sne by (intro Max_in) simp_all
  have ub: "\<forall>g\<in>set (sampling zs). g \<le> m"
    unfolding m_def by simp
  have len: "length gmlst = 200" by (simp add: gmlst_def linspace_length)
  have nth: "gmlst ! i = 1 + real i * ((2 * m - 1) / 199)" if "i < 200" for i
    using that by (simp add: gmlst_def linspace_nth)
  have sS: "sorted_wrt (<) (ix S_intrp)" and sR: "sorted_wrt (<) (ix R_intrp)"
    using b(4) by (simp_all add: b(5,7))
  have nodes: "interp_call S_intrp (gmlst ! i) = Inr (S_lst_of S39 chi0 Kalpha gmlst ! i)
        \<and> interp_call R_intrp (gmlst ! i) = Inr (R_lst_of R40 chi0 Kalpha gmlst ! i)
        \<and> S_lst_of S39 chi0 Kalpha gmlst ! i = S39 (gmlst ! i / 1800 * chi0) Kalpha
        \<and> R_lst_of R40 chi0 Kalpha gmlst ! i = R40 (gmlst ! i / 1800 * chi0) (gmlst ! i) Kalpha"
    if "i < 200" for i
    using interp_call_node[OF sS, of i] interp_call_node[OF sR, of i] that len
    by (simp add: b(5-8) S_lst_of_def R_lst_of_def)
  have segs: "interp_call S_intrp x =
            Inr (S_lst_of S39 chi0 Kalpha gmlst ! i
              + (S_lst_of S39 chi0 Kalpha gmlst ! Suc i - S_lst_of S39 chi0 Kalpha gmlst ! i)
                / (gmlst ! Suc i - gmlst ! i) * (x - gmlst ! i))
        \<and> interp_call R_intrp x =
            Inr (R_lst_of R40 chi0 Kalpha gmlst ! i
              + (R_lst_of R40 chi0 Kalpha gmlst ! Suc i - R_lst_of R40 chi0 Kalpha gmlst ! i)
                / (gmlst ! Suc i - gmlst ! i) * (x - gmlst ! i))"
    if "i < 199" "gmlst ! i \<le> x \<and> x \<le> gmlst ! Suc i" for i x
    using interp_call_segment[OF sS, of i x] interp_call_segment[OF sR, of i x] that len
    by (simp add: b(5-8))
  have ends: "gmlst ! 0 = 1" "gmlst ! 199 = 2 * m"
    using nth[of 0] nth[of 199] by (simp_all add: field_simps)
  have grid: "\<exists>gmlst S_intrp R_intrp.
      gmlst_of (sampling zs) = Inr gmlst
    \<and> interpolation S39 R40 chi0 Kalpha (sampling zs) = Inr (S_intrp, R_intrp)
    \<and> length gmlst = 200 \<and> gmlst ! 0 = 1 \<and> gmlst ! 199 = 2 * m
    \<and> (\<forall>i<200. gmlst ! i = 1 + real i * ((2 * m - 1) / 199))
    \<and> (\<forall>i<200.
          interp_call S_intrp (gmlst ! i) = Inr (S_lst_of S39 chi0 Kalpha gmlst ! i)
        \<and> interp_call R_intrp (gmlst ! i) = Inr (R_lst_of R40 chi0 Kalpha gmlst ! i)
        \<and> S_lst_of S39 chi0 Kalpha gmlst ! i = S39 (gmlst ! i / 1800 * chi0) Kalpha
        \<and> R_lst_of R40 chi0 Kalpha gmlst ! i = R40 (gmlst ! i / 1800 * chi0) (gmlst ! i) Kalpha)
    \<and> (\<forall>i<199. \<forall>x. gmlst ! i \<le> x \<and> x \<le> gmlst ! Suc i \<longrightarrow>
          interp_call S_intrp x =
            Inr (S_lst_of S39 chi0 Kalpha gmlst ! i
              + (S_lst_of S39 chi0 Kalpha gmlst ! Suc i - S_lst_of S39 chi0 Kalpha gmlst ! i)
                / (gmlst ! Suc i - gmlst ! i) * (x - gmlst ! i))
        \<and> interp_call R_intrp x =
            Inr (R_lst_of R40 chi0 Kalpha gmlst ! i
              + (R_lst_of R40 chi0 Kalpha gmlst ! Suc i - R_lst_of R40 chi0 Kalpha gmlst ! i)
                / (gmlst ! Suc i - gmlst ! i) * (x - gmlst ! i)))"
    apply (rule exI[of _ gmlst], rule exI[of _ S_intrp], rule exI[of _ R_intrp])
    using b(2,3) len ends nth nodes segs by blast
  show "Max (set (sampling zs)) \<in> set (sampling zs)
   \<and> (\<forall>g\<in>set (sampling zs). g \<le> Max (set (sampling zs)))
   \<and> np_max (sampling zs) = Inr (Max (set (sampling zs)))
   \<and> (\<exists>gmlst S_intrp R_intrp.
      gmlst_of (sampling zs) = Inr gmlst
    \<and> interpolation S39 R40 chi0 Kalpha (sampling zs) = Inr (S_intrp, R_intrp)
    \<and> length gmlst = 200 \<and> gmlst ! 0 = 1 \<and> gmlst ! 199 = 2 * Max (set (sampling zs))
    \<and> (\<forall>i<200. gmlst ! i = 1 + real i * ((2 * Max (set (sampling zs)) - 1) / 199))
    \<and> (\<forall>i<200.
          interp_call S_intrp (gmlst ! i) = Inr (S_lst_of S39 chi0 Kalpha gmlst ! i)
        \<and> interp_call R_intrp (gmlst ! i) = Inr (R_lst_of R40 chi0 Kalpha gmlst ! i)
        \<and> S_lst_of S39 chi0 Kalpha gmlst ! i = S39 (gmlst ! i / 1800 * chi0) Kalpha
        \<and> R_lst_of R40 chi0 Kalpha gmlst ! i = R40 (gmlst ! i / 1800 * chi0) (gmlst ! i) Kalpha)
    \<and> (\<forall>i<199. \<forall>x. gmlst ! i \<le> x \<and> x \<le> gmlst ! Suc i \<longrightarrow>
          interp_call S_intrp x =
            Inr (S_lst_of S39 chi0 Kalpha gmlst ! i
              + (S_lst_of S39 chi0 Kalpha gmlst ! Suc i - S_lst_of S39 chi0 Kalpha gmlst ! i)
                / (gmlst ! Suc i - gmlst ! i) * (x - gmlst ! i))
        \<and> interp_call R_intrp x =
            Inr (R_lst_of R40 chi0 Kalpha gmlst ! i
              + (R_lst_of R40 chi0 Kalpha gmlst ! Suc i - R_lst_of R40 chi0 Kalpha gmlst ! i)
                / (gmlst ! Suc i - gmlst ! i) * (x - gmlst ! i))))"
    unfolding m_def[symmetric] using mem ub b(1) grid by (intro conjI)
qed

theorem coefficient_grid_witness:
  "sampling [0, 1] = [1800, 1890]
   \<and> np_max (sampling [0, 1]) = Inr 1890
   \<and> gmlst_of (sampling [0, 1]) = Inr (linspace 1 3780 200)
   \<and> length (linspace 1 3780 200) = 200
   \<and> linspace 1 3780 200 ! 0 = 1
   \<and> linspace 1 3780 200 ! 199 = 3780
   \<and> linspace 1 3780 200 ! 100 = 1 + 100 * (3779 / 199)
   \<and> interp_call (interp1d (linspace 1 3780 200)
        (S_lst_of (\<lambda>chi K. chi * K) (1 / 10) 231916 (linspace 1 3780 200)))
        (linspace 1 3780 200 ! 100)
      = Inr ((1 + 100 * (3779 / 199)) / 1800 * (1 / 10) * 231916)
   \<and> interp_call (interp1d (linspace 1 3780 200)
        (R_lst_of (\<lambda>chi gm K. chi * gm) (1 / 10) 231916 (linspace 1 3780 200)))
        (linspace 1 3780 200 ! 100)
      = Inr ((1 + 100 * (3779 / 199)) / 1800 * (1 / 10) * (1 + 100 * (3779 / 199)))
   \<and> interp_call (interp1d (linspace 1 3780 200)
        (S_lst_of (\<lambda>chi K. chi * K) (1 / 10) 231916 (linspace 1 3780 200)))
        (1 + 3779 / 398)
      = Inr ((1 + 3779 / 398) / 1800 * (1 / 10) * 231916)"
proof -
  let ?g = "linspace 1 3780 200"
  let ?Si = "interp1d ?g (S_lst_of (\<lambda>chi K. chi * K) (1 / 10) 231916 ?g)"
  let ?Ri = "interp1d ?g (R_lst_of (\<lambda>chi gm K. chi * gm) (1 / 10) 231916 ?g)"
  have ne: "[0, 1 :: real] \<noteq> []" by simp
  have s: "sampling [0, 1] = [1800, 1890]" by (simp add: sampling_def)
  have mx: "Max (set (sampling [0, 1])) = 1890" by (simp add: s)
  have gl: "gmlst_of (sampling [0, 1]) = Inr ?g"
    by (simp add: s gmlst_of_def np_max_def)
  have ip: "interpolation (\<lambda>chi K. chi * K) (\<lambda>chi gm K. chi * gm) (1 / 10) 231916
      (sampling [0, 1]) = Inr (?Si, ?Ri)"
    by (simp add: s interpolation_def gmlst_of_def np_max_def)
  note c = coefficient_grid[of "[0, 1]" "\<lambda>chi K. chi * K" "\<lambda>chi gm K. chi * gm"
      "1 / 10" 231916, THEN mp, OF ne, unfolded mx]
  from c have np: "np_max (sampling [0, 1]) = Inr 1890" by simp
  from c obtain gmlst S_intrp R_intrp
    where g1: "gmlst_of (sampling [0, 1]) = Inr gmlst"
      and g2: "interpolation (\<lambda>chi K. chi * K) (\<lambda>chi gm K. chi * gm) (1 / 10) 231916
          (sampling [0, 1]) = Inr (S_intrp, R_intrp)"
      and len: "length gmlst = 200" and e0: "gmlst ! 0 = 1" and e1: "gmlst ! 199 = 2 * 1890"
      and nth: "\<forall>i<200. gmlst ! i = 1 + real i * ((2 * 1890 - 1) / 199)"
      and nodes: "\<forall>i<200.
          interp_call S_intrp (gmlst ! i)
            = Inr (S_lst_of (\<lambda>chi K. chi * K) (1 / 10) 231916 gmlst ! i)
        \<and> interp_call R_intrp (gmlst ! i)
            = Inr (R_lst_of (\<lambda>chi gm K. chi * gm) (1 / 10) 231916 gmlst ! i)
        \<and> S_lst_of (\<lambda>chi K. chi * K) (1 / 10) 231916 gmlst ! i
            = gmlst ! i / 1800 * (1 / 10) * 231916
        \<and> R_lst_of (\<lambda>chi gm K. chi * gm) (1 / 10) 231916 gmlst ! i
            = gmlst ! i / 1800 * (1 / 10) * (gmlst ! i)"
      and segs: "\<forall>i<199. \<forall>x. gmlst ! i \<le> x \<and> x \<le> gmlst ! Suc i \<longrightarrow>
          interp_call S_intrp x =
            Inr (S_lst_of (\<lambda>chi K. chi * K) (1 / 10) 231916 gmlst ! i
              + (S_lst_of (\<lambda>chi K. chi * K) (1 / 10) 231916 gmlst ! Suc i
                 - S_lst_of (\<lambda>chi K. chi * K) (1 / 10) 231916 gmlst ! i)
                / (gmlst ! Suc i - gmlst ! i) * (x - gmlst ! i))
        \<and> interp_call R_intrp x =
            Inr (R_lst_of (\<lambda>chi gm K. chi * gm) (1 / 10) 231916 gmlst ! i
              + (R_lst_of (\<lambda>chi gm K. chi * gm) (1 / 10) 231916 gmlst ! Suc i
                 - R_lst_of (\<lambda>chi gm K. chi * gm) (1 / 10) 231916 gmlst ! i)
                / (gmlst ! Suc i - gmlst ! i) * (x - gmlst ! i))"
    by blast
  have eqs: "gmlst = ?g" "S_intrp = ?Si" "R_intrp = ?Ri"
    using g1 g2 gl ip by simp_all
  have n100: "?g ! 100 = 1 + 100 * (3779 / 199)"
    using nth[rule_format, of 100] unfolding eqs by simp
  have n0: "?g ! 0 = 1" and n1: "?g ! Suc 0 = 1 + 3779 / 199"
    using nth[rule_format, of 0] nth[rule_format, of 1] unfolding eqs by simp_all
  have v100: "interp_call ?Si (?g ! 100) = Inr ((1 + 100 * (3779 / 199)) / 1800 * (1 / 10) * 231916)"
    "interp_call ?Ri (?g ! 100)
      = Inr ((1 + 100 * (3779 / 199)) / 1800 * (1 / 10) * (1 + 100 * (3779 / 199)))"
    using nodes[rule_format, of 100] unfolding eqs by (simp_all only: n100)
  have t: "S_lst_of (\<lambda>chi K. chi * K) (1 / 10) 231916 ?g ! 0 = 1 / 1800 * (1 / 10) * 231916"
    "S_lst_of (\<lambda>chi K. chi * K) (1 / 10) 231916 ?g ! Suc 0
      = (1 + 3779 / 199) / 1800 * (1 / 10) * 231916"
    using nodes[rule_format, of 0] nodes[rule_format, of 1] unfolding eqs
    by (simp_all add: n0 n1)
  have "?g ! 0 \<le> 1 + 3779 / 398 \<and> 1 + 3779 / 398 \<le> ?g ! Suc 0"
    by (simp add: n0 n1)
  with segs[rule_format, of 0 "1 + 3779 / 398"]
  have "interp_call ?Si (1 + 3779 / 398) =
      Inr (S_lst_of (\<lambda>chi K. chi * K) (1 / 10) 231916 ?g ! 0
        + (S_lst_of (\<lambda>chi K. chi * K) (1 / 10) 231916 ?g ! Suc 0
           - S_lst_of (\<lambda>chi K. chi * K) (1 / 10) 231916 ?g ! 0)
          / (?g ! Suc 0 - ?g ! 0) * (1 + 3779 / 398 - ?g ! 0))"
    unfolding eqs by simp
  then have mid: "interp_call ?Si (1 + 3779 / 398)
      = Inr ((1 + 3779 / 398) / 1800 * (1 / 10) * 231916)"
    unfolding t n0 n1 by simp
  show ?thesis
    using s np gl len[unfolded eqs] e0[unfolded eqs] e1[unfolded eqs] n100 v100 mid
    by simp
qed

section \<open>Queries outside the grid\<close>

lemma step_query_error:
  assumes "S_intrp x = Inl e"
  shows "step sq S_intrp R_intrp dt z (Fin x) = Inl e"
  using assms by (simp add: step_def query_def)

text \<open>The first particle whose step raises ends the pass, with its exception.\<close>

lemma for_particles_order_first_error:
  assumes "distinct (is @ [i])" "\<forall>j\<in>set (is @ [i]). j < length gm"
    and "\<forall>j\<in>set is. \<exists>v. step sq S R dt (z j) (gm ! j) = Inr v"
    and "step sq S R dt (z i) (gm ! i) = Inl e"
  shows "for_particles_order sq S R dt z (is @ i # rest) gm = Inl e"
  using assms
proof (induction "is" arbitrary: gm)
  case Nil
  then show ?case by simp
next
  case (Cons j "is")
  from Cons.prems(3) obtain v where v: "step sq S R dt (z j) (gm ! j) = Inr v" by auto
  have d: "j \<notin> set is" "j \<noteq> i" using Cons.prems(1) by auto
  have "for_particles_order sq S R dt z (is @ i # rest) (gm[j := v]) = Inl e"
  proof (rule Cons.IH)
    show "distinct (is @ [i])" using Cons.prems(1) by simp
    show "\<forall>l\<in>set (is @ [i]). l < length (gm[j := v])" using Cons.prems(2) by simp
    show "\<forall>l\<in>set is. \<exists>w. step sq S R dt (z l) (gm[j := v] ! l) = Inr w"
    proof
      fix l assume l: "l \<in> set is"
      then have "l \<noteq> j" using d by auto
      then have "gm[j := v] ! l = gm ! l" by simp
      then show "\<exists>w. step sq S R dt (z l) (gm[j := v] ! l) = Inr w"
        using Cons.prems(3) l by simp
    qed
    show "step sq S R dt (z i) (gm[j := v] ! i) = Inl e"
      using Cons.prems(4) d by (simp add: nth_list_update)
  qed
  then show ?case by (simp add: v)
qed

lemma timestep_first_error:
  assumes "i < length gm"
    and "\<forall>j<i. \<exists>v. step sq S R dt (noise (k + j)) (gm ! j) = Inr v"
    and "step sq S R dt (noise (k + i)) (gm ! i) = Inl e"
  shows "for_particles sq S R dt noise [0..<length gm] (gm, k) = Inl e"
proof -
  have "[0..<length gm] = [0..<i] @ [i..<length gm]"
    using assms(1) by (metis le0 less_imp_le_nat upt_add_eq_append le_add_diff_inverse)
  then have split: "[0..<length gm] = [0..<i] @ i # [Suc i..<length gm]"
    using assms(1) by (simp add: upt_conv_Cons)
  have "for_particles_order sq S R dt (\<lambda>i. noise (k + i)) ([0..<i] @ i # [Suc i..<length gm]) gm
      = Inl e"
    using assms by (intro for_particles_order_first_error) auto
  then show ?thesis
    by (simp add: for_particles_range split[symmetric])
qed

lemma steps_Inl_mono:
  assumes "steps sq S R dt noise m st = Inl e" "m \<le> n"
  shows "steps sq S R dt noise n st = Inl e"
proof -
  have "steps sq S R dt noise (m + (n - m)) st = Inl e"
    unfolding steps_add using assms(1) by simp
  then show ?thesis using assms(2) by simp
qed

lemma run_Inl:
  assumes "0 < tdim" "ensemble_after sq S R dt noise (nat tdim) gm = Inl e"
  shows "run sq S R tdim dt noise gm = Inl e"
proof (cases "ensemble_after sq S R dt noise (nat (tdim div 2) + 1) gm")
  case (Inl e')
  then have "steps sq S R dt noise (nat (tdim div 2) + 1) (gm, 0) = Inl e'"
    by (auto simp: ensemble_after_def split: sum.splits)
  moreover have "nat (tdim div 2) + 1 \<le> nat tdim" using assms(1) by simp
  ultimately have "steps sq S R dt noise (nat tdim) (gm, 0) = Inl e'"
    by (rule steps_Inl_mono)
  with assms(2) have "e' = e" by (simp add: ensemble_after_def)
  with Inl show ?thesis by (simp add: run_positive[OF assms(1)])
next
  case (Inr mid)
  with assms(2) show ?thesis by (simp add: run_positive[OF assms(1)])
qed

text \<open>An exception in a pass of the particle loop is the outcome of the run.\<close>

lemma run_abort:
  assumes "steps sq S R dt noise n (gm0, 0) = Inr (gm, k)" "n < nat tdim"
    and "for_particles sq S R dt noise [0..<length gm] (gm, k) = Inl e"
  shows "run sq S R tdim dt noise gm0 = Inl e"
proof -
  have "steps sq S R dt noise (n + 1) (gm0, 0) = Inl e"
    unfolding steps_add using assms(1,3) by simp
  moreover have "n + 1 \<le> nat tdim" using assms(2) by simp
  ultimately have "steps sq S R dt noise (nat tdim) (gm0, 0) = Inl e"
    by (rule steps_Inl_mono)
  then have "ensemble_after sq S R dt noise (nat tdim) gm0 = Inl e"
    by (simp add: ensemble_after_def)
  moreover have "0 < tdim" using assms(2) by simp
  ultimately show ?thesis by (intro run_Inl)
qed

text \<open>The bounds of the interpolants of cell 3.\<close>

lemma interpolation_bounds:
  assumes "zs \<noteq> []" "np_max (sampling zs) = Inr m"
    and "interpolation S39 R40 chi0 Kalpha (sampling zs) = Inr (S_intrp, R_intrp)"
  shows "hd (ix S_intrp) = 1" "last (ix S_intrp) = 2 * m"
    and "hd (ix R_intrp) = 1" "last (ix R_intrp) = 2 * m"
    and "1 \<le> m"
proof -
  have m: "m = Max (set (sampling zs))"
    using interpolation_sampling(1)[OF assms(1) refl refl] assms(2) by simp
  note a = interpolation_sampling[OF assms(1) m refl]
  have S: "S_intrp = interp1d (linspace 1 (2 * m) 200)
        (S_lst_of S39 chi0 Kalpha (linspace 1 (2 * m) 200))"
    and R: "R_intrp = interp1d (linspace 1 (2 * m) 200)
        (R_lst_of R40 chi0 Kalpha (linspace 1 (2 * m) 200))"
    using a(3)[of S39 R40 chi0 Kalpha] assms(3) by simp_all
  show "hd (ix S_intrp) = 1" "last (ix S_intrp) = 2 * m"
    "hd (ix R_intrp) = 1" "last (ix R_intrp) = 2 * m"
    unfolding S R a(5,7) by (simp_all add: linspace_hd_last)
  show "1 \<le> m" unfolding m by (rule sampling_Max_ge1[OF assms(1)])
qed

text \<open>
  Claim C4. Let the interpolants be those cell 3 builds from a non-empty sampled ensemble
  with maximum \<open>m\<close>, so that the grid range is \<open>[1, 2 m]\<close>. A query below 1 or above \<open>2 m\<close>
  raises in both interpolants (the \<open>ValueError\<close> of \<open>interp1d\<close>, below or above the
  interpolation range); nothing is extrapolated or clamped, and a query inside the range
  returns a value. The step of a particle at such a value raises that exception, and the
  run in which a particle first reaches such a value raises it too, unchanged.
\<close>

theorem out_of_range_query_raises:
  "zs \<noteq> [] \<and> np_max (sampling zs) = Inr m
   \<and> interpolation S39 R40 chi0 Kalpha (sampling zs) = Inr (S_intrp, R_intrp) \<longrightarrow>
     (x < 1 \<longrightarrow> interp_call S_intrp x = Inl ValueError_below_range
               \<and> interp_call R_intrp x = Inl ValueError_below_range)
   \<and> (2 * m < x \<longrightarrow> interp_call S_intrp x = Inl ValueError_above_range
               \<and> interp_call R_intrp x = Inl ValueError_above_range)
   \<and> (1 \<le> x \<and> x \<le> 2 * m \<longrightarrow>
        (\<exists>s r. interp_call S_intrp x = Inr s \<and> interp_call R_intrp x = Inr r))
   \<and> (x < 1 \<or> 2 * m < x \<longrightarrow>
        step sq (interp_call S_intrp) (interp_call R_intrp) dt z (Fin x)
          = Inl (if x < 1 then ValueError_below_range else ValueError_above_range)
      \<and> (steps sq (interp_call S_intrp) (interp_call R_intrp) dt noise n (gm0, 0)
            = Inr (gmdist, k)
          \<and> n < nat tdim \<and> i < length gmdist \<and> gmdist ! i = Fin x
          \<and> (\<forall>j<i. \<exists>v. step sq (interp_call S_intrp) (interp_call R_intrp) dt
                        (noise (k + j)) (gmdist ! j) = Inr v)
        \<longrightarrow> run sq (interp_call S_intrp) (interp_call R_intrp) tdim dt noise gm0
              = Inl (if x < 1 then ValueError_below_range else ValueError_above_range)))"
proof (intro impI)
  assume a: "zs \<noteq> [] \<and> np_max (sampling zs) = Inr m
   \<and> interpolation S39 R40 chi0 Kalpha (sampling zs) = Inr (S_intrp, R_intrp)"
  then have ne: "zs \<noteq> []" and mx: "np_max (sampling zs) = Inr m"
    and ip: "interpolation S39 R40 chi0 Kalpha (sampling zs) = Inr (S_intrp, R_intrp)"
    by simp_all
  note b = interpolation_bounds[OF ne mx ip]
  let ?S = "interp_call S_intrp" and ?R = "interp_call R_intrp"
  let ?e = "if x < 1 then ValueError_below_range else ValueError_above_range"
  have lo: "?S x = Inl ValueError_below_range \<and> ?R x = Inl ValueError_below_range" if "x < 1"
    using that by (simp add: interp_call_def b)
  have hi: "?S x = Inl ValueError_above_range \<and> ?R x = Inl ValueError_above_range" if "2 * m < x"
    using that b(5) by (simp add: interp_call_def b(1-4))
  have mid: "\<exists>s r. ?S x = Inr s \<and> ?R x = Inr r" if "1 \<le> x \<and> x \<le> 2 * m"
    using that by (simp add: interp_call_def b(1-4))
  have st: "step sq ?S ?R dt z' (Fin x) = Inl ?e" if "x < 1 \<or> 2 * m < x" for z'
  proof -
    have "?S x = Inl ?e" using that lo hi b(5) by (cases "x < 1") auto
    then show ?thesis by (rule step_query_error)
  qed
  have rn: "run sq ?S ?R tdim dt noise gm0 = Inl ?e"
    if o: "x < 1 \<or> 2 * m < x"
      and r: "steps sq ?S ?R dt noise n (gm0, 0) = Inr (gmdist, k)
          \<and> n < nat tdim \<and> i < length gmdist \<and> gmdist ! i = Fin x
          \<and> (\<forall>j<i. \<exists>v. step sq ?S ?R dt (noise (k + j)) (gmdist ! j) = Inr v)"
  proof -
    have "step sq ?S ?R dt (noise (k + i)) (gmdist ! i) = Inl ?e"
      using st[OF o] r by simp
    with r have "for_particles sq ?S ?R dt noise [0..<length gmdist] (gmdist, k) = Inl ?e"
      by (intro timestep_first_error) auto
    with r show ?thesis by (intro run_abort) auto
  qed
  show "(x < 1 \<longrightarrow> ?S x = Inl ValueError_below_range \<and> ?R x = Inl ValueError_below_range)
   \<and> (2 * m < x \<longrightarrow> ?S x = Inl ValueError_above_range \<and> ?R x = Inl ValueError_above_range)
   \<and> (1 \<le> x \<and> x \<le> 2 * m \<longrightarrow> (\<exists>s r. ?S x = Inr s \<and> ?R x = Inr r))
   \<and> (x < 1 \<or> 2 * m < x \<longrightarrow>
        step sq ?S ?R dt z (Fin x) = Inl ?e
      \<and> (steps sq ?S ?R dt noise n (gm0, 0) = Inr (gmdist, k)
          \<and> n < nat tdim \<and> i < length gmdist \<and> gmdist ! i = Fin x
          \<and> (\<forall>j<i. \<exists>v. step sq ?S ?R dt (noise (k + j)) (gmdist ! j) = Inr v)
        \<longrightarrow> run sq ?S ?R tdim dt noise gm0 = Inl ?e))"
    using lo hi mid st rn by blast
qed

theorem out_of_range_query_raises_witness:
  "interp_call (interp1d (linspace 1 3600 200)
       (S_lst_of (\<lambda>chi K. chi * K) (1 / 10) 231916 (linspace 1 3600 200))) 4000
     = Inl ValueError_above_range
   \<and> interp_call (interp1d (linspace 1 3600 200)
       (R_lst_of (\<lambda>chi gm K. chi * gm) (1 / 10) 231916 (linspace 1 3600 200))) 4000
     = Inl ValueError_above_range
   \<and> run NumpySqrt
       (interp_call (interp1d (linspace 1 3600 200)
          (S_lst_of (\<lambda>chi K. chi * K) (1 / 10) 231916 (linspace 1 3600 200))))
       (interp_call (interp1d (linspace 1 3600 200)
          (R_lst_of (\<lambda>chi gm K. chi * gm) (1 / 10) 231916 (linspace 1 3600 200))))
       1000 0.005 zero_noise [Fin 4000, Fin 1800]
     = Inl ValueError_above_range"
proof -
  let ?Si = "interp1d (linspace 1 3600 200)
       (S_lst_of (\<lambda>chi K. chi * K) (1 / 10) 231916 (linspace 1 3600 200))"
  let ?Ri = "interp1d (linspace 1 3600 200)
       (R_lst_of (\<lambda>chi gm K. chi * gm) (1 / 10) 231916 (linspace 1 3600 200))"
  have h: "[0 :: real] \<noteq> [] \<and> np_max (sampling [0]) = Inr 1800
     \<and> interpolation (\<lambda>chi K. chi * K) (\<lambda>chi gm K. chi * gm) (1 / 10) 231916 (sampling [0])
       = Inr (?Si, ?Ri)"
    by (simp add: sampling_def np_max_def interpolation_def gmlst_of_def)
  have s0: "steps NumpySqrt (interp_call ?Si) (interp_call ?Ri) 0.005 zero_noise 0
      ([Fin 4000, Fin 1800], 0) = Inr ([Fin 4000, Fin 1800], 0)
     \<and> 0 < nat 1000 \<and> 0 < length [Fin 4000, Fin 1800] \<and> [Fin 4000, Fin 1800] ! 0 = Fin 4000
     \<and> (\<forall>j<0. \<exists>v. step NumpySqrt (interp_call ?Si) (interp_call ?Ri) 0.005
                        (zero_noise (0 + j)) ([Fin 4000, Fin 1800] ! j) = Inr v)"
    by simp
  have o: "(4000 :: real) < 1 \<or> 2 * 1800 < (4000 :: real)" by simp
  from out_of_range_query_raises[of "[0]" 1800 "\<lambda>chi K. chi * K" "\<lambda>chi gm K. chi * gm"
      "1 / 10" 231916 ?Si ?Ri 4000 NumpySqrt "0.005" 0 zero_noise 0 "[Fin 4000, Fin 1800]"
      "[Fin 4000, Fin 1800]" 0 1000 0] h s0 o
  show ?thesis by simp
qed

section \<open>The lower end of the grid\<close>










lemma interpolation_Inr_nonempty:
  assumes "interpolation S39 R40 chi0 Kalpha (sampling zs) = Inr p"
  shows "zs \<noteq> []" "\<exists>m. np_max (sampling zs) = Inr m"
  using assms
  by (auto simp: interpolation_def gmlst_of_def np_max_def sampling_def
      split: sum.splits list.splits)


text \<open>An interpolant over a constant table is that constant inside the range.\<close>

lemma interp_call_const:
  assumes "2 \<le> length (ix f)" "iy f = map (\<lambda>u. c) (ix f)"
    and "hd (ix f) \<le> x" "x \<le> last (ix f)"
  shows "interp_call f x = Inr c"
proof -
  define hi where "hi = min (length (ix f) - 1) (max 1 (searchsorted (ix f) x))"
  have "hi < length (ix f)" "hi - 1 < length (ix f)"
    using assms(1) by (auto simp: hi_def)
  then have "iy f ! hi = c" "iy f ! (hi - 1) = c"
    by (simp_all add: assms(2))
  then have "call_linear f x = c"
    unfolding call_linear_def Let_def hi_def[symmetric] by simp
  then show ?thesis
    using assms(3,4) by (simp add: interp_call_def)
qed




section \<open>The lower bound in the notebook\<close>

text \<open>Inside the range every query lies on a segment between two adjacent nodes.\<close>

lemma segment_exists:
  fixes xs :: "real list"
  assumes "sorted_wrt (<) xs" "2 \<le> length xs" "hd xs \<le> x" "x \<le> last xs"
  shows "\<exists>i. Suc i < length xs \<and> xs ! i \<le> x \<and> x \<le> xs ! Suc i"
proof -
  have ne: "xs \<noteq> []" using assms(2) by auto
  define j where "j = (LEAST j. j < length xs \<and> x \<le> xs ! j)"
  have ex: "length xs - 1 < length xs \<and> x \<le> xs ! (length xs - 1)"
    using assms(4) ne by (simp add: last_conv_nth)
  from LeastI[of "\<lambda>j. j < length xs \<and> x \<le> xs ! j", OF ex]
  have j: "j < length xs" "x \<le> xs ! j" by (simp_all add: j_def)
  show ?thesis
  proof (cases j)
    case 0
    with j assms(3) ne have "xs ! 0 \<le> x" "x \<le> xs ! 0" by (simp_all add: hd_conv_nth)
    moreover have "xs ! 0 < xs ! Suc 0"
      using sorted_wrt_nth_less[OF assms(1), of 0 "Suc 0"] assms(2) by simp
    ultimately show ?thesis using assms(2) by (intro exI[of _ 0]) auto
  next
    case (Suc i)
    have "\<not> (i < length xs \<and> x \<le> xs ! i)"
      using not_less_Least[of i "\<lambda>j. j < length xs \<and> x \<le> xs ! j"] Suc
      by (simp add: j_def)
    with j Suc have "xs ! i \<le> x" by simp
    with j Suc show ?thesis by (intro exI[of _ i]) simp
  qed
qed

text \<open>Linear interpolation between non-negative values is non-negative.\<close>

lemma interp_call_nonneg:
  assumes "sorted_wrt (<) (ix f)" "2 \<le> length (ix f)" "length (iy f) = length (ix f)"
    and "\<forall>y\<in>set (iy f). 0 \<le> y" and "interp_call f x = Inr r"
  shows "0 \<le> r"
proof -
  from assms(5) have rng: "hd (ix f) \<le> x" "x \<le> last (ix f)"
    by (auto simp: interp_call_def split: if_splits)
  from segment_exists[OF assms(1,2) rng] obtain i
    where i: "Suc i < length (ix f)" "ix f ! i \<le> x" "x \<le> ix f ! Suc i" by auto
  define a where "a = iy f ! i"
  define b where "b = iy f ! Suc i"
  define d where "d = ix f ! Suc i - ix f ! i"
  define u where "u = x - ix f ! i"
  have ab: "0 \<le> a" "0 \<le> b"
    using assms(3,4) i(1) by (simp_all add: a_def b_def)
  have "ix f ! i < ix f ! Suc i"
    using sorted_wrt_nth_less[OF assms(1), of i "Suc i"] i(1) by simp
  then have d: "0 < d" by (simp add: d_def)
  have u: "0 \<le> u" "u \<le> d" using i(2,3) by (simp_all add: u_def d_def)
  have "r = a + (b - a) / d * u"
    using interp_call_segment[OF assms(1) i] assms(5) by (simp add: a_def b_def d_def u_def)
  also have "\<dots> = (a * (d - u) + b * u) / d"
    using d by (simp add: field_simps)
  also have "0 \<le> \<dots>"
    using ab d u by (intro divide_nonneg_pos add_nonneg_nonneg mult_nonneg_nonneg) simp_all
  finally show ?thesis by simp
qed

lemma R_intrp_nonneg:
  assumes "\<forall>chi gm K. 0 \<le> R40 chi gm K"
    and "interpolation S39 R40 chi0 Kalpha (sampling zs) = Inr (S_intrp, R_intrp)"
  shows "\<forall>x r. interp_call R_intrp x = Inr r \<longrightarrow> 0 \<le> r"
proof (intro allI impI)
  fix x r assume r: "interp_call R_intrp x = Inr r"
  from interpolation_Inr_nonempty[OF assms(2)] have ne: "zs \<noteq> []" by simp
  define m where "m = Max (set (sampling zs))"
  define gmlst where "gmlst = linspace 1 (2 * m) 200"
  note a = interpolation_sampling[OF ne m_def gmlst_def]
  have R: "R_intrp = interp1d gmlst (R_lst_of R40 chi0 Kalpha gmlst)"
    using a(3)[of S39 R40 chi0 Kalpha] assms(2) by simp
  have ixR: "ix R_intrp = gmlst" and iyR: "iy R_intrp = R_lst_of R40 chi0 Kalpha gmlst"
    unfolding R by (rule a)+
  show "0 \<le> r"
  proof (rule interp_call_nonneg[OF _ _ _ _ r])
    show "sorted_wrt (<) (ix R_intrp)" unfolding ixR by (rule a(4))
    show "2 \<le> length (ix R_intrp)" unfolding ixR by (simp add: gmlst_def linspace_length)
    show "length (iy R_intrp) = length (ix R_intrp)"
      unfolding ixR iyR by (simp add: R_lst_of_def)
    show "\<forall>y\<in>set (iy R_intrp). 0 \<le> y"
      unfolding iyR using assms(1) by (auto simp: R_lst_of_def)
  qed
qed

text \<open>
  With a non-negative \<open>R40\<close> and \<open>tmax\<close>, every dump of a completed notebook run is at least
  1 everywhere (the mid dump when a time step was made, since it starts as zeros).
\<close>

lemma notebook_ge1:
  assumes "\<forall>chi gm K. 0 \<le> R40 chi gm K" "0 \<le> tmax"
    and "notebook sq S39 R40 chi0 Kalpha tmax tdim zs noise = Inr d"
  shows "list_all ge1 (gmdist_dump1 d)" "list_all ge1 (gmdist_dump3 d)"
    and "0 < tdim \<longrightarrow> list_all ge1 (gmdist_dump2 d)"
proof -
  from assms(3) obtain dt S_intrp R_intrp
    where dt: "dt_of tmax tdim = Inr dt"
      and ip: "interpolation S39 R40 chi0 Kalpha (sampling zs) = Inr (S_intrp, R_intrp)"
      and rn: "run sq (interp_call S_intrp) (interp_call R_intrp) tdim dt noise
                 (map Fin (sampling zs)) = Inr d"
    by (auto simp: notebook_def Let_def split: sum.splits)
  let ?S = "interp_call S_intrp" and ?R = "interp_call R_intrp"
  let ?gm = "map Fin (sampling zs)"
  have g0: "list_all ge1 ?gm"
    by (simp add: list_all_iff sampling_ge1)
  have d1: "gmdist_dump1 d = ?gm"
    using rn by (auto simp: run_def Let_def split: sum.splits)
  show "list_all ge1 (gmdist_dump1 d)" by (simp only: d1 g0)
  show "list_all ge1 (gmdist_dump3 d)"
  proof (cases "0 < tdim")
    case False
    with rn show ?thesis using g0 by (auto simp: run_nonpositive)
  next
    case True
    then have "0 \<le> dt" using dt assms(2) by (auto simp: dt_of_def split: if_splits)
    with R_intrp_nonneg[OF assms(1) ip]
    have c: "sq = MathSqrt \<or> (0 \<le> dt \<and> (\<forall>x r. ?R x = Inr r \<longrightarrow> 0 \<le> r))" by simp
    from rn obtain k where "steps sq ?S ?R dt noise (nat tdim) (?gm, 0) = Inr (gmdist_dump3 d, k)"
      unfolding run_positive[OF True] ensemble_after_def
      by (auto split: sum.splits prod.splits)
    from steps_ge1[OF this g0 c] show ?thesis .
  qed
  show "0 < tdim \<longrightarrow> list_all ge1 (gmdist_dump2 d)"
  proof
    assume True: "0 < tdim"
    then have "0 \<le> dt" using dt assms(2) by (auto simp: dt_of_def split: if_splits)
    with R_intrp_nonneg[OF assms(1) ip]
    have c: "sq = MathSqrt \<or> (0 \<le> dt \<and> (\<forall>x r. ?R x = Inr r \<longrightarrow> 0 \<le> r))" by simp
    from rn obtain k
      where "steps sq ?S ?R dt noise (nat (tdim div 2) + 1) (?gm, 0) = Inr (gmdist_dump2 d, k)"
      unfolding run_positive[OF True] ensemble_after_def
      by (auto split: sum.splits prod.splits)
    from steps_ge1[OF this g0 c] show "list_all ge1 (gmdist_dump2 d)" .
  qed
qed

text \<open>
  Claim C2, as stated: after every step, whatever the draw, the stored value would be at
  least 1. When \<open>sqrt\<close> is \<open>numpy.sqrt\<close>, a negative diffusion rate (\<open>R = -1\<close>) or a negative
  time step (\<open>dt = -1\<close>) makes the update NaN; the test \<open>gmdist[i] < 1\<close> is false of NaN, the
  clamp is skipped and NaN stays in the ensemble, which started at 1800.
\<close>

theorem lower_bound_counterexample:
  "ge1 (Fin 1800)
   \<and> step NumpySqrt (interp_call \<lparr>ix = [1, 3600], iy = [1, 1]\<rparr>)
        (interp_call \<lparr>ix = [1, 3600], iy = [- 1, - 1]\<rparr>) 0.01 0 (Fin 1800) = Inr NaN
   \<and> step NumpySqrt (interp_call \<lparr>ix = [1, 3600], iy = [1, 1]\<rparr>)
        (interp_call \<lparr>ix = [1, 3600], iy = [4, 4]\<rparr>) (- 1) 0 (Fin 1800) = Inr NaN
   \<and> steps NumpySqrt (interp_call \<lparr>ix = [1, 3600], iy = [1, 1]\<rparr>)
        (interp_call \<lparr>ix = [1, 3600], iy = [- 1, - 1]\<rparr>) 0.01 zero_noise 1 ([Fin 1800], 0)
      = Inr ([NaN], 1)
   \<and> \<not> ge1 NaN"
  by (simp add: step_def query_def Let_def interp_call_def call_linear_def searchsorted_def
      zero_noise_def)

text \<open>
  Claim C2, amended. Provided the square root does not produce NaN, that is, \<open>sqrt\<close> is
  \<open>math.sqrt\<close> (which raises on a negative argument, so that no value is stored), or the
  time step and the diffusion rate are non-negative: a step that completes on a finite
  value stores a value that is at least 1, whatever the draw; a pass of the particle loop,
  and so any number of time steps, preserves "every value of the ensemble is at least 1".
  In the notebook a non-negative \<open>R40\<close> and \<open>tmax\<close> suffice, and every dump of a completed
  run is then at least 1 everywhere. A particle at 1.002 with \<open>S = 1\<close>, \<open>R = 0\<close> and
  \<open>dt = 0.01\<close> ends the step at exactly 1.
\<close>

theorem lower_bound_invariant:
  "(step sq S_intrp R_intrp dt z (Fin g) = Inr g'
      \<and> (sq = MathSqrt \<or> (0 \<le> dt \<and> (\<forall>x r. R_intrp x = Inr r \<longrightarrow> 0 \<le> r)))
    \<longrightarrow> ge1 g')
   \<and> (steps sq S_intrp R_intrp dt noise n (gmdist, k) = Inr (gmdist', k')
      \<and> list_all ge1 gmdist
      \<and> (sq = MathSqrt \<or> (0 \<le> dt \<and> (\<forall>x r. R_intrp x = Inr r \<longrightarrow> 0 \<le> r)))
    \<longrightarrow> list_all ge1 gmdist')
   \<and> ((\<forall>chi gm K. 0 \<le> R40 chi gm K) \<and> 0 \<le> tmax
      \<and> notebook sq S39 R40 chi0 Kalpha tmax tdim zs noise = Inr d
    \<longrightarrow> list_all ge1 (gmdist_dump1 d) \<and> list_all ge1 (gmdist_dump3 d)
      \<and> (0 < tdim \<longrightarrow> list_all ge1 (gmdist_dump2 d)))
   \<and> step sq0 (interp_call \<lparr>ix = [1, 3600], iy = [1, 1]\<rparr>)
        (interp_call \<lparr>ix = [1, 3600], iy = [0, 0]\<rparr>) 0.01 z0 (Fin 1.002) = Inr (Fin 1)"
proof (intro conjI impI)
  show "step sq0 (interp_call \<lparr>ix = [1, 3600], iy = [1, 1]\<rparr>)
        (interp_call \<lparr>ix = [1, 3600], iy = [0, 0]\<rparr>) 0.01 z0 (Fin 1.002) = Inr (Fin 1)"
    by (simp add: step_def query_def Let_def interp_call_def call_linear_def searchsorted_def)
next
  assume a: "(\<forall>chi gm K. 0 \<le> R40 chi gm K) \<and> 0 \<le> tmax
      \<and> notebook sq S39 R40 chi0 Kalpha tmax tdim zs noise = Inr d"
  then have 1: "\<forall>chi gm K. 0 \<le> R40 chi gm K" and 2: "0 \<le> tmax"
    and 3: "notebook sq S39 R40 chi0 Kalpha tmax tdim zs noise = Inr d"
    by simp_all
  show "list_all ge1 (gmdist_dump1 d)" "list_all ge1 (gmdist_dump3 d)"
    by (rule notebook_ge1[OF 1 2 3])+
  assume "0 < tdim"
  with notebook_ge1(3)[OF 1 2 3] show "list_all ge1 (gmdist_dump2 d)" by simp
qed (auto intro: step_ge1 steps_ge1)

theorem lower_bound_invariant_witness:
  "notebook NumpySqrt (\<lambda>chi K. 1) (\<lambda>chi gm K. 0) (1 / 10) 231916 2 2 [0] real
     = Inr \<lparr>gmdist_dump1 = [Fin 1800], gmdist_dump2 = [Fin 1798], gmdist_dump3 = [Fin 1798]\<rparr>
   \<and> list_all ge1 [Fin 1800] \<and> list_all ge1 [Fin 1798]
   \<and> steps MathSqrt (interp_call \<lparr>ix = [1, 3600], iy = [1, 1]\<rparr>)
      (interp_call \<lparr>ix = [1, 3600], iy = [0, 0]\<rparr>) 0.01 real 2 ([Fin 1.002, Fin 2], 0)
     = Inr ([Fin 1, Fin 1.98], 4)
   \<and> list_all ge1 [Fin 1.002, Fin 2]
   \<and> list_all ge1 [Fin 1, Fin 1.98]
   \<and> step MathSqrt (interp_call \<lparr>ix = [1, 3600], iy = [1, 1]\<rparr>)
        (interp_call \<lparr>ix = [1, 3600], iy = [0, 0]\<rparr>) 0.01 7 (Fin 2) = Inr (Fin 1.99)
   \<and> ge1 (Fin 1.99)"
proof -
  let ?g = "linspace 1 3600 200"
  let ?Si = "interp1d ?g (S_lst_of (\<lambda>chi K. 1) (1 / 10) 231916 ?g)"
  let ?Ri = "interp1d ?g (R_lst_of (\<lambda>chi gm K. 0) (1 / 10) 231916 ?g)"
  let ?S = "interp_call ?Si" and ?R = "interp_call ?Ri"
  have ne: "[0 :: real] \<noteq> []" by simp
  have s: "sampling [0] = [1800]" by (simp add: sampling_def)
  have m: "1800 = Max (set (sampling [0]))" by (simp add: s)
  have g: "linspace 1 (2 * 1800) 200 = ?g" by simp
  note a = interpolation_sampling[OF ne m refl, unfolded g]
  have len: "length ?g = 200" by (simp add: linspace_length)
  have hl: "hd ?g = 1" "last ?g = 3600" by (simp_all add: linspace_hd_last)
  have ixS: "ix ?Si = ?g" and iyS: "iy ?Si = S_lst_of (\<lambda>chi K. 1) (1 / 10) 231916 ?g"
    and ixR: "ix ?Ri = ?g" and iyR: "iy ?Ri = R_lst_of (\<lambda>chi gm K. 0) (1 / 10) 231916 ?g"
    by (rule a)+
  have S: "?S x = Inr 1" if "1 \<le> x" "x \<le> 3600" for x
  proof (rule interp_call_const)
    show "2 \<le> length (ix ?Si)" unfolding ixS by (simp add: len)
    show "iy ?Si = map (\<lambda>u. 1) (ix ?Si)" unfolding ixS iyS by (simp add: S_lst_of_def)
    show "hd (ix ?Si) \<le> x" unfolding ixS using that by (simp add: hl)
    show "x \<le> last (ix ?Si)" unfolding ixS using that by (simp add: hl)
  qed
  have R: "?R x = Inr 0" if "1 \<le> x" "x \<le> 3600" for x
  proof (rule interp_call_const)
    show "2 \<le> length (ix ?Ri)" unfolding ixR by (simp add: len)
    show "iy ?Ri = map (\<lambda>u. 0) (ix ?Ri)" unfolding ixR iyR by (simp add: R_lst_of_def)
    show "hd (ix ?Ri) \<le> x" unfolding ixR using that by (simp add: hl)
    show "x \<le> last (ix ?Ri)" unfolding ixR using that by (simp add: hl)
  qed
  have one: "step NumpySqrt ?S ?R 1 z (Fin x) = Inr (Fin (x - 1))"
    if "2 \<le> x" "x \<le> 3600" for x z
    using that S[of x] R[of x]
    by (simp add: step_Fin[where S_intrp="?S" and R_intrp="?R" and g=x and S=1 and R=0])
  have ip: "interpolation (\<lambda>chi K. 1) (\<lambda>chi gm K. 0) (1 / 10) 231916 [1800] = Inr (?Si, ?Ri)"
    using a(3)[of "\<lambda>chi K. 1" "\<lambda>chi gm K. 0" "1 / 10" 231916] unfolding s .
  define Sd where "Sd = ?S"
  define Rd where "Rd = ?R"
  have u: "[0..<nat 2] = [0, 1]" by (simp add: upt_rec eval_nat_numeral)
  have "run NumpySqrt Sd Rd 2 1 real [Fin 1800]
      = Inr \<lparr>gmdist_dump1 = [Fin 1800], gmdist_dump2 = [Fin 1798], gmdist_dump3 = [Fin 1798]\<rparr>"
    unfolding run_def u
    by (simp add: Let_def int_half_def one[folded Sd_def Rd_def])
  then have "run NumpySqrt ?S ?R 2 1 real [Fin 1800]
      = Inr \<lparr>gmdist_dump1 = [Fin 1800], gmdist_dump2 = [Fin 1798], gmdist_dump3 = [Fin 1798]\<rparr>"
    unfolding Sd_def Rd_def .
  then have nb: "notebook NumpySqrt (\<lambda>chi K. 1) (\<lambda>chi gm K. 0) (1 / 10) 231916 2 2 [0] real
     = Inr \<lparr>gmdist_dump1 = [Fin 1800], gmdist_dump2 = [Fin 1798], gmdist_dump3 = [Fin 1798]\<rparr>"
    by (simp add: notebook_def dt_of_def s ip)
  have 1: "steps MathSqrt (interp_call \<lparr>ix = [1, 3600], iy = [1, 1]\<rparr>)
      (interp_call \<lparr>ix = [1, 3600], iy = [0, 0]\<rparr>) 0.01 real 2 ([Fin 1.002, Fin 2], 0)
     = Inr ([Fin 1, Fin 1.98], 4)"
    by (simp add: step_def query_def Let_def interp_call_def call_linear_def searchsorted_def
        upt_rec eval_nat_numeral)
  have 2: "step MathSqrt (interp_call \<lparr>ix = [1, 3600], iy = [1, 1]\<rparr>)
        (interp_call \<lparr>ix = [1, 3600], iy = [0, 0]\<rparr>) 0.01 7 (Fin 2) = Inr (Fin 1.99)"
    by (simp add: step_def query_def Let_def interp_call_def call_linear_def searchsorted_def)
  show ?thesis
    using nb 1 2
      lower_bound_invariant[of MathSqrt "interp_call \<lparr>ix = [1, 3600], iy = [1, 1]\<rparr>"
        "interp_call \<lparr>ix = [1, 3600], iy = [0, 0]\<rparr>" "0.01" 7 2 "Fin 1.99" real 2
        "[Fin 1.002, Fin 2]" 0 "[Fin 1, Fin 1.98]" 4 "\<lambda>chi gm K. 0" 2 "\<lambda>chi K. 1" "1 / 10"
        231916 2 "[0]" "\<lparr>gmdist_dump1 = [Fin 1800], gmdist_dump2 = [Fin 1798],
          gmdist_dump3 = [Fin 1798]\<rparr>" MathSqrt 0]
    by simp
qed

end
